theory Spec2Isabelle
  imports Main "HOL-Library.AList" "HOL-Library.Multiset" "HOL-Library.Monad_Syntax"
begin

section \<open>Data model\<close>

text \<open>
  Strings are lists of characters. A JavaScript \<^verbatim>\<open>Map\<close> iterates in insertion order,
  \<^verbatim>\<open>set\<close> on a present key replaces the value in place and \<^verbatim>\<open>delete\<close> removes the
  entry: this is an association list with \<^const>\<open>AList.update\<close>, \<^const>\<open>AList.delete\<close>
  and \<^const>\<open>map_of\<close>.
\<close>

record TableDependency =
  tableName :: string
  depFilePath :: string
  dependencies :: "string list"

record ExecutionOrder =
  tables :: "string list"
  seeders :: "string list"
  timestamp :: string

datatype cubeType = Table | Seeder

section \<open>DependencyResolver.topologicalSort\<close>

text \<open>\<^verbatim>\<open>m.has(k)\<close> and \<^verbatim>\<open>m.get(k) || 0\<close> on the in-degree map.\<close>

definition has :: "(string \<times> 'v) list \<Rightarrow> string \<Rightarrow> bool" where
  "has m k = (map_of m k \<noteq> None)"

definition getOr0 :: "(string \<times> int) list \<Rightarrow> string \<Rightarrow> int" where
  "getOr0 m k = (case map_of m k of None \<Rightarrow> 0 | Some d \<Rightarrow> d)"

text \<open>First loop: \<^verbatim>\<open>graph.set(dep.tableName, dep.dependencies); inDegree.set(dep.tableName, 0)\<close>.\<close>

definition buildGraph :: "TableDependency list \<Rightarrow> (string \<times> string list) list" where
  "buildGraph deps = fold (\<lambda>dep g. AList.update (tableName dep) (dependencies dep) g) deps []"

definition initInDegree :: "TableDependency list \<Rightarrow> (string \<times> int) list" where
  "initInDegree deps = fold (\<lambda>dep m. AList.update (tableName dep) 0 m) deps []"

text \<open>Second loop: for every dependency of \<open>dep\<close> that is a known table, the in-degree
  of \<open>dep\<close> itself is incremented.\<close>

definition countDependency :: "string \<Rightarrow> string \<Rightarrow> (string \<times> int) list \<Rightarrow> (string \<times> int) list" where
  "countDependency name dependency m =
     (if has m dependency then AList.update name (getOr0 m name + 1) m else m)"

definition calcInDegree :: "TableDependency list \<Rightarrow> (string \<times> int) list \<Rightarrow> (string \<times> int) list" where
  "calcInDegree deps m0 =
     fold (\<lambda>dep m. fold (countDependency (tableName dep)) (dependencies dep) m) deps m0"

text \<open>The queue starts with the tables of in-degree zero, in the iteration order of the map.\<close>

definition initialQueue :: "(string \<times> int) list \<Rightarrow> string list" where
  "initialQueue m = map fst (filter (\<lambda>(tbl, degree). degree = 0) m)"

text \<open>The body of the inner \<^verbatim>\<open>for (const neighbor of currentDeps)\<close>, on the pair of the
  queue and the in-degree map.\<close>

definition relax :: "string \<Rightarrow> string list \<times> (string \<times> int) list \<Rightarrow> string list \<times> (string \<times> int) list" where
  "relax neighbor s =
     (case s of (queue, inDegree) \<Rightarrow>
        if has inDegree neighbor then
          let newDegree = getOr0 inDegree neighbor - 1;
              inDegree' = AList.update neighbor newDegree inDegree
          in (if newDegree = 0 then queue @ [neighbor] else queue, inDegree')
        else (queue, inDegree))"

text \<open>Number of entries of the in-degree map that are still positive: with the length of
  the queue it bounds the iterations of the \<^verbatim>\<open>while\<close> loop.\<close>

definition positives :: "(string \<times> int) list \<Rightarrow> nat" where
  "positives m = length (filter (\<lambda>p. 0 < snd p) m)"

lemma positives_update_le:
  "map_of m k = Some d \<Longrightarrow> d' \<le> d \<Longrightarrow> positives (AList.update k d' m) \<le> positives m"
  by (induction m) (auto simp: positives_def)

lemma positives_update_less:
  "map_of m k = Some d \<Longrightarrow> 0 < d \<Longrightarrow> d' \<le> 0 \<Longrightarrow> positives (AList.update k d' m) < positives m"
proof (induction m)
  case Nil
  then show ?case by simp
next
  case (Cons p m)
  show ?case
  proof (cases "fst p = k")
    case True
    with Cons.prems show ?thesis by (cases p) (auto simp: positives_def)
  next
    case False
    with Cons show ?thesis by (cases p) (auto simp: positives_def)
  qed
qed

lemma relax_measure:
  "relax n (q, m) = (q', m') \<Longrightarrow> length q' + positives m' \<le> length q + positives m"
proof (cases "has m n")
  case False
  assume "relax n (q, m) = (q', m')"
  with False show ?thesis by (simp add: relax_def)
next
  case True
  assume r: "relax n (q, m) = (q', m')"
  from True obtain d where d: "map_of m n = Some d" by (auto simp: has_def)
  show ?thesis
  proof (cases "d = 1")
    case True
    with r d \<open>has m n\<close> have "q' = q @ [n]" "m' = AList.update n 0 m"
      by (auto simp: relax_def getOr0_def Let_def)
    moreover from d True have "positives (AList.update n 0 m) < positives m"
      by (intro positives_update_less[of m n d]) auto
    ultimately show ?thesis by simp
  next
    case False
    with r d \<open>has m n\<close> have "q' = q" "m' = AList.update n (d - 1) m"
      by (auto simp: relax_def getOr0_def Let_def)
    moreover from d have "positives (AList.update n (d - 1) m) \<le> positives m"
      by (intro positives_update_le[of m n d]) auto
    ultimately show ?thesis by simp
  qed
qed

lemma fold_relax_measure:
  "fold relax ns (q, m) = (q', m') \<Longrightarrow> length q' + positives m' \<le> length q + positives m"
proof (induction ns arbitrary: q m)
  case Nil
  then show ?case by simp
next
  case (Cons n ns)
  obtain q1 m1 where s: "relax n (q, m) = (q1, m1)" by (cases "relax n (q, m)")
  with Cons.prems have "fold relax ns (q1, m1) = (q', m')" by simp
  from Cons.IH[OF this] relax_measure[OF s] show ?case by simp
qed

text \<open>The \<^verbatim>\<open>while (queue.length > 0)\<close> loop: \<^verbatim>\<open>queue.shift()\<close>, \<^verbatim>\<open>result.push(current)\<close>,
  then the inner loop over \<^verbatim>\<open>graph.get(current) || []\<close>.\<close>

function kahn :: "(string \<times> string list) list \<Rightarrow> string list \<Rightarrow> string list \<Rightarrow> (string \<times> int) list
    \<Rightarrow> string list \<times> (string \<times> int) list" where
  "kahn graph [] result inDegree = (result, inDegree)"
| "kahn graph (current # queue) result inDegree =
     (let currentDeps = (case map_of graph current of None \<Rightarrow> [] | Some ds \<Rightarrow> ds);
          s = fold relax currentDeps (queue, inDegree)
      in kahn graph (fst s) (result @ [current]) (snd s))"
  by pat_completeness auto
termination
proof (relation "measure (\<lambda>(graph, queue, result, inDegree). length queue + positives inDegree)")
  show "wf (measure (\<lambda>(graph, queue, result, inDegree). length queue + positives inDegree))"
    by simp
next
  fix graph :: "(string \<times> string list) list" and current queue result
    and inDegree :: "(string \<times> int) list" and currentDeps s
  assume "currentDeps = (case map_of graph current of None \<Rightarrow> [] | Some ds \<Rightarrow> ds)"
    and s: "s = fold relax currentDeps (queue, inDegree)"
  then have "fold relax currentDeps (queue, inDegree) = (fst s, snd s)" by simp
  from fold_relax_measure[OF this]
  show "((graph, fst s, result @ [current], snd s), (graph, current # queue, result, inDegree))
        \<in> measure (\<lambda>(graph, queue, result, inDegree). length queue + positives inDegree)"
    by simp
qed

text \<open>After the loop: when \<^verbatim>\<open>result.length !== dependencies.length\<close>, the tables that are
  not yet in the result are pushed in the order of the input.\<close>

definition appendRemaining :: "TableDependency list \<Rightarrow> string list \<Rightarrow> string list" where
  "appendRemaining deps result =
     fold (\<lambda>dep r. if tableName dep \<notin> set r then r @ [tableName dep] else r) deps result"

definition kahnResult :: "TableDependency list \<Rightarrow> string list" where
  "kahnResult deps =
     (let inDegree = calcInDegree deps (initInDegree deps)
      in fst (kahn (buildGraph deps) (initialQueue inDegree) [] inDegree))"

definition topologicalSort :: "TableDependency list \<Rightarrow> string list" where
  "topologicalSort deps =
     (let result = kahnResult deps
      in if length result \<noteq> length deps then appendRemaining deps result else result)"

section \<open>Strings and regular expressions\<close>

text \<open>
  A character is one code unit below 256. The classes of the regular expressions of the
  source: \<^verbatim>\<open>\s\<close> (tab, line feed, vertical tab, form feed, carriage return, space,
  no-break space), \<^verbatim>\<open>\w\<close> and the line terminators that \<^verbatim>\<open>.\<close> does not match.
\<close>

abbreviation sq :: char where "sq \<equiv> CHR 0x27"
abbreviation dq :: char where "dq \<equiv> CHR 0x22"
abbreviation nl :: char where "nl \<equiv> CHR 0x0A"

definition isSpace :: "char \<Rightarrow> bool" where
  "isSpace c = (c \<in> {CHR 0x09, CHR 0x0A, CHR 0x0B, CHR 0x0C, CHR 0x0D, CHR 0x20, CHR 0xA0})"

definition isLineTerminator :: "char \<Rightarrow> bool" where
  "isLineTerminator c = (c = CHR 0x0A \<or> c = CHR 0x0D)"

definition isWord :: "char \<Rightarrow> bool" where
  "isWord c = (c \<in> set ''abcdefghijklmnopqrstuvwxyzABCDEFGHIJKLMNOPQRSTUVWXYZ0123456789_'')"

definition isIdStart :: "char \<Rightarrow> bool" where
  "isIdStart c = (c \<in> set ''abcdefghijklmnopqrstuvwxyzABCDEFGHIJKLMNOPQRSTUVWXYZ_'')"

definition isQuote :: "char \<Rightarrow> bool" where
  "isQuote c = (c = dq \<or> c = sq)"

text \<open>\<^verbatim>\<open>s.startsWith(p)\<close>, \<^verbatim>\<open>s.includes(p)\<close>, \<^verbatim>\<open>s.trim()\<close>, \<^verbatim>\<open>s.split('\n')\<close>
  and \<^verbatim>\<open>xs.join(', ')\<close>.\<close>

definition startsWith :: "string \<Rightarrow> string \<Rightarrow> bool" where
  "startsWith s p = (take (length p) s = p)"

fun strIncludes :: "string \<Rightarrow> string \<Rightarrow> bool" where
  "strIncludes [] p = (p = [])"
| "strIncludes (c # cs) p = (startsWith (c # cs) p \<or> strIncludes cs p)"

definition trim :: "string \<Rightarrow> string" where
  "trim s = rev (dropWhile isSpace (rev (dropWhile isSpace s)))"

fun splitLines :: "string \<Rightarrow> string list" where
  "splitLines [] = [] # []"
| "splitLines (c # cs) =
     (if c = nl then [] # splitLines cs
      else (case splitLines cs of [] \<Rightarrow> [c] # [] | l # ls \<Rightarrow> (c # l) # ls))"

fun joinComma :: "string list \<Rightarrow> string" where
  "joinComma [] = []"
| "joinComma [x] = x"
| "joinComma (x # y # ys) = x @ '', '' @ joinComma (y # ys)"

text \<open>Matching at a position returns the rest of the input after the match, together
  with the capture group where the source reads one. \<^verbatim>\<open>\s*\<close> followed by a character
  that is no white space never backtracks, so it is \<^const>\<open>dropWhile\<close>; an unanchored
  expression is tried at every position from the left.\<close>

definition lit :: "string \<Rightarrow> string \<Rightarrow> string option" where
  "lit p s = (if startsWith s p then Some (drop (length p) s) else None)"

definition ws :: "string \<Rightarrow> string option" where
  "ws s = Some (dropWhile isSpace s)"

definition oneOf :: "(char \<Rightarrow> bool) \<Rightarrow> string \<Rightarrow> string option" where
  "oneOf cls s = (case s of [] \<Rightarrow> None | c # cs \<Rightarrow> if cls c then Some cs else None)"

text \<open>A greedy \<^verbatim>\<open>[class]+\<close> in a capture group, followed by a character outside the class.\<close>

definition many1 :: "(char \<Rightarrow> bool) \<Rightarrow> string \<Rightarrow> (string \<times> string) option" where
  "many1 cls s = (if takeWhile cls s = [] then None else Some (takeWhile cls s, dropWhile cls s))"

definition many0 :: "(char \<Rightarrow> bool) \<Rightarrow> string \<Rightarrow> (string \<times> string) option" where
  "many0 cls s = Some (takeWhile cls s, dropWhile cls s)"

fun search :: "(string \<Rightarrow> 'a option) \<Rightarrow> string \<Rightarrow> 'a option" where
  "search m [] = m []"
| "search m (c # cs) = (case m (c # cs) of Some r \<Rightarrow> Some r | None \<Rightarrow> search m cs)"

text \<open>\<^verbatim>\<open>(line.match(/\{/g) || []).length\<close>.\<close>

definition countChar :: "char \<Rightarrow> string \<Rightarrow> int" where
  "countChar c s = int (length (filter (\<lambda>x. x = c) s))"

section \<open>The environment\<close>

text \<open>What the code reads from Node: \<^verbatim>\<open>fs.readFileSync\<close> (\<open>Inl\<close> is the message of
  the exception it throws), \<^verbatim>\<open>fs.existsSync\<close> and the functions of \<^verbatim>\<open>path\<close>;
  \<open>joinCwdDbcube f\<close> is \<^verbatim>\<open>path.join(process.cwd(), 'dbcube', f)\<close>.\<close>

record env =
  readFileSync :: "string \<Rightarrow> string + string"
  existsSync :: "string \<Rightarrow> bool"
  isAbsolute :: "string \<Rightarrow> bool"
  resolve :: "string \<Rightarrow> string"
  joinCwdDbcube :: "string \<Rightarrow> string"
  basename :: "string \<Rightarrow> string \<Rightarrow> string"
  extname :: "string \<Rightarrow> string"

section \<open>FileUtils.extracTableNameFromCube\<close>

record response =
  status :: nat
  message :: string

text \<open>\<^verbatim>\<open>/@meta\s*\(\s*\{\s*name\s*:\s*["']([^"']+)["']\s*;\s*[^}]*\}\s*\)/s\<close> at one position;
  the result is capture group 1.\<close>

definition metaAt :: "string \<Rightarrow> string option" where
  "metaAt s = do {
     s \<leftarrow> lit ''@meta'' s; s \<leftarrow> ws s;
     s \<leftarrow> lit ''('' s; s \<leftarrow> ws s;
     s \<leftarrow> lit ''{'' s; s \<leftarrow> ws s;
     s \<leftarrow> lit ''name'' s; s \<leftarrow> ws s;
     s \<leftarrow> lit '':'' s; s \<leftarrow> ws s;
     s \<leftarrow> oneOf isQuote s;
     (name, s) \<leftarrow> many1 (\<lambda>c. \<not> isQuote c) s;
     s \<leftarrow> oneOf isQuote s; s \<leftarrow> ws s;
     s \<leftarrow> lit '';'' s; s \<leftarrow> ws s;
     (_, s) \<leftarrow> many0 (\<lambda>c. c \<noteq> CHR ''}'') s;
     s \<leftarrow> lit ''}'' s; s \<leftarrow> ws s;
     _ \<leftarrow> lit '')'' s;
     Some name
   }"

definition extracTableNameFromCube :: "env \<Rightarrow> string \<Rightarrow> response" where
  "extracTableNameFromCube e filePath =
     (case readFileSync e filePath of
        Inl msg \<Rightarrow> \<lparr>status = 500, message = msg\<rparr>
      | Inr content \<Rightarrow>
          (case search metaAt content of
             Some name \<Rightarrow> \<lparr>status = 200, message = name\<rparr>
           | None \<Rightarrow> \<lparr>status = 500, message =
               ''Error to execute this file '' @ filePath @ '' because no exist a name of table.''\<rparr>))"

section \<open>DependencyResolver.extractForeignKeyReferences\<close>

text \<open>\<^verbatim>\<open>/foreign\s*:\s*\{/\<close> and \<^verbatim>\<open>/table\s*:\s*["']([^"']+)["']/\<close> at one position.\<close>

definition foreignAt :: "string \<Rightarrow> unit option" where
  "foreignAt s = do {
     s \<leftarrow> lit ''foreign'' s; s \<leftarrow> ws s;
     s \<leftarrow> lit '':'' s; s \<leftarrow> ws s;
     _ \<leftarrow> lit ''{'' s;
     Some ()
   }"

definition tableRefAt :: "string \<Rightarrow> string option" where
  "tableRefAt s = do {
     s \<leftarrow> lit ''table'' s; s \<leftarrow> ws s;
     s \<leftarrow> lit '':'' s; s \<leftarrow> ws s;
     s \<leftarrow> oneOf isQuote s;
     (name, s) \<leftarrow> many1 (\<lambda>c. \<not> isQuote c) s;
     _ \<leftarrow> oneOf isQuote s;
     Some name
   }"

definition hasForeignStart :: "string \<Rightarrow> bool" where
  "hasForeignStart line = (search foreignAt line \<noteq> None)"

text \<open>One iteration of the loop over the lines; the state is
  \<open>(insideForeignKey, braceCount, dependencies)\<close>.\<close>

definition foreignStep :: "string \<Rightarrow> bool \<times> int \<times> string list \<Rightarrow> bool \<times> int \<times> string list" where
  "foreignStep line st =
     (case st of (insideForeignKey, braceCount, deps) \<Rightarrow>
        if hasForeignStart line then
          (case search tableRefAt line of
             Some t \<Rightarrow> (False, 0, deps @ [t])
           | None \<Rightarrow> (True, 1, deps))
        else if insideForeignKey then
          (let braceCount' = braceCount + countChar (CHR ''{'') line - countChar (CHR ''}'') line;
               deps' = (case search tableRefAt line of Some t \<Rightarrow> deps @ [t] | None \<Rightarrow> deps)
           in (braceCount' \<noteq> 0, braceCount', deps'))
        else st)"

definition foreignKeysOfContent :: "string \<Rightarrow> string list" where
  "foreignKeysOfContent content = snd (snd (fold foreignStep (splitLines content) (False, 0, [])))"

definition extractForeignKeyReferences :: "env \<Rightarrow> string \<Rightarrow> string list" where
  "extractForeignKeyReferences e filePath =
     (case readFileSync e filePath of Inl msg \<Rightarrow> [] | Inr content \<Rightarrow> foreignKeysOfContent content)"

section \<open>DependencyResolver.extractDependencies and resolveDependencies\<close>

definition cubeSuffix :: "cubeType \<Rightarrow> string" where
  "cubeSuffix ct = (case ct of Table \<Rightarrow> ''.table.cube'' | Seeder \<Rightarrow> ''.seeder.cube'')"

definition nameOrBasename :: "env \<Rightarrow> cubeType \<Rightarrow> string \<Rightarrow> string \<Rightarrow> string" where
  "nameOrBasename e ct file filePath =
     (let tableNameResult = extracTableNameFromCube e filePath
      in if status tableNameResult = 200 then message tableNameResult
         else basename e file (cubeSuffix ct))"

text \<open>Neither callee throws (both catch their own read errors), so the \<^verbatim>\<open>catch\<close> of the
  loop body is never entered and every file contributes one entry.\<close>

definition extractDependencies :: "env \<Rightarrow> string list \<Rightarrow> cubeType \<Rightarrow> TableDependency list" where
  "extractDependencies e cubeFiles ct =
     map (\<lambda>file.
        let filePath = (if isAbsolute e file then file
                        else if existsSync e file then resolve e file
                        else joinCwdDbcube e file)
        in \<lparr>tableName = nameOrBasename e ct file filePath,
            depFilePath = filePath,
            dependencies = extractForeignKeyReferences e filePath\<rparr>) cubeFiles"

text \<open>The order that is returned; \<open>now\<close> is \<^verbatim>\<open>new Date().toISOString()\<close>. The same
  value is written to the order file, which \<open>orderCubeFiles\<close> reads back.\<close>

definition resolveDependencies :: "env \<Rightarrow> string \<Rightarrow> string list \<Rightarrow> cubeType \<Rightarrow> ExecutionOrder" where
  "resolveDependencies e now cubeFiles ct =
     (let orderedTables = topologicalSort (extractDependencies e cubeFiles ct)
      in \<lparr>tables = (if ct = Table then orderedTables else []),
          seeders = (if ct = Seeder then orderedTables else []),
          timestamp = now\<rparr>)"

section \<open>DependencyResolver.orderCubeFiles\<close>

definition cubeTableName :: "env \<Rightarrow> cubeType \<Rightarrow> string \<Rightarrow> string" where
  "cubeTableName e ct file =
     nameOrBasename e ct file (if isAbsolute e file then file else joinCwdDbcube e file)"

text \<open>\<^verbatim>\<open>fileMap.set(tableName, file)\<close> for every file.\<close>

definition buildFileMap :: "(string \<Rightarrow> string) \<Rightarrow> string list \<Rightarrow> (string \<times> string) list" where
  "buildFileMap nameOf cubeFiles = fold (\<lambda>file m. AList.update (nameOf file) file m) cubeFiles []"

text \<open>The loop over the stored order, on \<open>(orderedFiles, fileMap)\<close>.\<close>

definition pickOrdered :: "string \<Rightarrow> string list \<times> (string \<times> string) list \<Rightarrow> string list \<times> (string \<times> string) list" where
  "pickOrdered tbl st =
     (case st of (orderedFiles, fileMap) \<Rightarrow>
        (case map_of fileMap tbl of
           Some file \<Rightarrow> (orderedFiles @ [file], AList.delete tbl fileMap)
         | None \<Rightarrow> (orderedFiles, fileMap)))"

definition reorder :: "(string \<Rightarrow> string) \<Rightarrow> string list \<Rightarrow> string list \<Rightarrow> string list" where
  "reorder nameOf orderList cubeFiles =
     (let st = fold pickOrdered orderList ([], buildFileMap nameOf cubeFiles)
      in fst st @ map snd (snd st))"

text \<open>The first argument is the result of \<^verbatim>\<open>loadExecutionOrder()\<close>: \<open>None\<close> when the
  order file is absent or unreadable.\<close>

definition orderCubeFiles :: "env \<Rightarrow> ExecutionOrder option \<Rightarrow> string list \<Rightarrow> cubeType \<Rightarrow> string list" where
  "orderCubeFiles e stored cubeFiles ct =
     (case stored of
        None \<Rightarrow> cubeFiles
      | Some executionOrder \<Rightarrow> reorder (cubeTableName e ct) (tables executionOrder) cubeFiles)"

section \<open>CubeValidator\<close>

record ProcessError =
  itemName :: string
  error :: string
  filePath :: "string option"
  lineNumber :: "nat option"

record ValidationResult =
  isValid :: bool
  errors :: "ProcessError list"

definition validTypes :: "string list" where
  "validTypes = [''varchar'', ''int'', ''string'', ''text'', ''boolean'', ''date'', ''datetime'',
     ''timestamp'', ''decimal'', ''float'', ''double'', ''enum'', ''json'']"

definition validOptions :: "string list" where
  "validOptions = [''not null'', ''primary'', ''autoincrement'', ''unique'', ''zerofill'', ''index'',
     ''required'', ''unsigned'']"

definition validProperties :: "string list" where
  "validProperties = [''type'', ''length'', ''options'', ''value'', ''defaultValue'', ''foreign'',
     ''enumValues'', ''description'']"

definition knownAnnotations :: "string list" where
  "knownAnnotations = [''database'', ''table'', ''meta'', ''columns'', ''fields'', ''dataset'',
     ''beforeAdd'', ''afterAdd'', ''beforeUpdate'', ''afterUpdate'', ''beforeDelete'', ''afterDelete'',
     ''compute'', ''column'']"

text \<open>The object literal that every check pushes.\<close>

definition mkError :: "string \<Rightarrow> string \<Rightarrow> string \<Rightarrow> nat \<Rightarrow> ProcessError" where
  "mkError fileName msg path n =
     \<lparr>itemName = fileName, error = msg, filePath = Some path, lineNumber = Some n\<rparr>"

text \<open>The loop \<^verbatim>\<open>while ((match = regex.exec(line)) !== null)\<close> of a global expression, and
  \<^verbatim>\<open>s.match(/.../g)\<close>: the matches from left to right, each search starting where the
  previous match ended. The argument matches at one position and returns what the
  source reads from the match, with the rest of the input.\<close>

function globalMatches :: "(string \<Rightarrow> ('a \<times> string) option) \<Rightarrow> string \<Rightarrow> 'a list" where
  "globalMatches m s =
     (case m s of
        Some (x, r) \<Rightarrow>
          x # (if length r < length s then globalMatches m r
               else (case s of [] \<Rightarrow> [] | _ # t \<Rightarrow> globalMatches m t))
      | None \<Rightarrow> (case s of [] \<Rightarrow> [] | _ # t \<Rightarrow> globalMatches m t))"
  by pat_completeness auto
termination
  by (relation "measure (\<lambda>(m, s). length s)") auto

declare globalMatches.simps [simp del]

subsection \<open>validateAnnotations\<close>

text \<open>\<^verbatim>\<open>/@(\w+)/g\<close>.\<close>

definition annotationAt :: "string \<Rightarrow> (string \<times> string) option" where
  "annotationAt s = do { s \<leftarrow> lit ''@'' s; many1 isWord s }"

definition validateAnnotations :: "string \<Rightarrow> nat \<Rightarrow> string \<Rightarrow> string \<Rightarrow> ProcessError list" where
  "validateAnnotations line n path fileName =
     map (\<lambda>annotation. mkError fileName
            (''Unknown annotation '' @ [sq] @ ''@'' @ annotation @ [sq] @ ''. Valid annotations: ''
               @ joinComma knownAnnotations) path n)
         (filter (\<lambda>annotation. annotation \<notin> set knownAnnotations) (globalMatches annotationAt line))"

subsection \<open>validateDataTypes\<close>

text \<open>\<^verbatim>\<open>/type:\s*["'](\w+)["']/g\<close>.\<close>

definition typeAt :: "string \<Rightarrow> (string \<times> string) option" where
  "typeAt s = do {
     s \<leftarrow> lit ''type:'' s; s \<leftarrow> ws s;
     s \<leftarrow> oneOf isQuote s;
     (t, s) \<leftarrow> many1 isWord s;
     s \<leftarrow> oneOf isQuote s;
     Some (t, s)
   }"

definition varcharDecl :: string where
  \<open>varcharDecl = ''type: "varchar"''\<close>

definition lengthMessage :: string where
  "lengthMessage = ''VARCHAR type requires a length specification''"

text \<open>\<^verbatim>\<open>lines.slice(Math.max(0, lineNumber - 1), Math.min(lineNumber + 4, lines.length))\<close>
  \<^verbatim>\<open>.some(nextLine => nextLine.includes('length:'))\<close>; line numbers start at 1.\<close>

definition hasLengthNearby :: "string list \<Rightarrow> nat \<Rightarrow> bool" where
  "hasLengthNearby lines n =
     (let start = max 0 (n - 1); stop = min (n + 4) (length lines)
      in \<exists>nextLine \<in> set (take (stop - start) (drop start lines)). strIncludes nextLine ''length:'')"

definition validateDataTypes :: "string \<Rightarrow> nat \<Rightarrow> string \<Rightarrow> string \<Rightarrow> string list \<Rightarrow> ProcessError list" where
  "validateDataTypes line n path fileName lines =
     map (\<lambda>t. mkError fileName
            (''Invalid data type '' @ [sq] @ t @ [sq] @ ''. Valid types: '' @ joinComma validTypes) path n)
         (filter (\<lambda>t. t \<notin> set validTypes) (globalMatches typeAt line))
     @ (if strIncludes line varcharDecl \<and> \<not> hasLengthNearby lines n
        then [mkError fileName lengthMessage path n] else [])"

subsection \<open>validateColumnOptions\<close>

text \<open>\<^verbatim>\<open>/^\s*options\s*:\s*\[(.*)\]\s*;?\s*$/\<close>. The part \<^verbatim>\<open>\]\s*;?\s*$\<close> after the group:\<close>

definition optionsTail :: "string \<Rightarrow> bool" where
  "optionsTail s =
     (case lit '']'' s of
        None \<Rightarrow> False
      | Some s1 \<Rightarrow>
          (let s2 = dropWhile isSpace s1;
               s3 = (case lit '';'' s2 of Some r \<Rightarrow> r | None \<Rightarrow> s2)
           in dropWhile isSpace s3 = []))"

text \<open>The greedy group \<^verbatim>\<open>(.*)\<close> followed by \<open>k\<close>: it takes as many characters as it can
  (no line terminator) and gives them back one by one until the rest matches \<open>k\<close>.\<close>

fun greedyDot :: "(string \<Rightarrow> bool) \<Rightarrow> string \<Rightarrow> string option" where
  "greedyDot k [] = (if k [] then Some [] else None)"
| "greedyDot k (c # cs) =
     (if \<not> isLineTerminator c then
        (case greedyDot k cs of
           Some g \<Rightarrow> Some (c # g)
         | None \<Rightarrow> if k (c # cs) then Some [] else None)
      else if k (c # cs) then Some [] else None)"

definition optionsMatch :: "string \<Rightarrow> string option" where
  "optionsMatch line = do {
     s \<leftarrow> ws line;
     s \<leftarrow> lit ''options'' s; s \<leftarrow> ws s;
     s \<leftarrow> lit '':'' s; s \<leftarrow> ws s;
     s \<leftarrow> lit ''['' s;
     greedyDot optionsTail s
   }"

text \<open>\<^verbatim>\<open>/[^",\s]+(?![^"]*")/\<close>: a longest run of characters other than the double quote,
  the comma and white space, given back one by one until no double quote follows
  anywhere in the rest; tried at every position from the left. The result is the
  matched text.\<close>

definition isBare :: "char \<Rightarrow> bool" where
  "isBare c = (c \<noteq> dq \<and> c \<noteq> CHR '','' \<and> \<not> isSpace c)"

definition noQuoteAhead :: "string \<Rightarrow> bool" where
  "noQuoteAhead s = (dq \<notin> set s)"

fun bareRun :: "string \<Rightarrow> string option" where
  "bareRun [] = None"
| "bareRun (c # cs) =
     (if isBare c then
        (case bareRun cs of
           Some g \<Rightarrow> Some (c # g)
         | None \<Rightarrow> if noQuoteAhead cs then Some [c] else None)
      else None)"

definition invalidSyntaxMatch :: "string \<Rightarrow> string option" where
  "invalidSyntaxMatch optionsContent = search bareRun optionsContent"

text \<open>\<^verbatim>\<open>/"([^"]*)"/g\<close>; the source strips the quotes of each match with
  \<^verbatim>\<open>replace(/"/g, '')\<close>, which leaves the group.\<close>

definition quotedAt :: "string \<Rightarrow> (string \<times> string) option" where
  "quotedAt s = do {
     s \<leftarrow> lit [dq] s;
     (option, s) \<leftarrow> many0 (\<lambda>c. c \<noteq> dq) s;
     s \<leftarrow> lit [dq] s;
     Some (option, s)
   }"

text \<open>\<^verbatim>\<open>/^\s*([a-zA-Z_][a-zA-Z0-9_]*)\s*:/\<close>, with the rest after the colon, and
  \<^verbatim>\<open>/^\s*[a-zA-Z_][a-zA-Z0-9_]*\s*:\s*\{/\<close>, which opens a column definition.\<close>

definition identAt :: "string \<Rightarrow> (string \<times> string) option" where
  "identAt s =
     (case s of
        [] \<Rightarrow> None
      | c # cs \<Rightarrow> if isIdStart c then Some (c # takeWhile isWord cs, dropWhile isWord cs) else None)"

definition propertyKey :: "string \<Rightarrow> (string \<times> string) option" where
  "propertyKey line = do {
     s \<leftarrow> ws line;
     (name, s) \<leftarrow> identAt s;
     s \<leftarrow> ws s;
     s \<leftarrow> lit '':'' s;
     Some (name, s)
   }"

definition columnDef :: "string \<Rightarrow> string option" where
  "columnDef line = do {
     (name, s) \<leftarrow> propertyKey line;
     s \<leftarrow> ws s;
     _ \<leftarrow> lit ''{'' s;
     Some name
   }"

text \<open>\<^verbatim>\<open>/^\s*type\s*:\s*"([^"]+)"/\<close>.\<close>

definition typeLineMatch :: "string \<Rightarrow> string option" where
  "typeLineMatch line = do {
     s \<leftarrow> ws line;
     s \<leftarrow> lit ''type'' s; s \<leftarrow> ws s;
     s \<leftarrow> lit '':'' s; s \<leftarrow> ws s;
     s \<leftarrow> lit [dq] s;
     (t, s) \<leftarrow> many1 (\<lambda>c. c \<noteq> dq) s;
     _ \<leftarrow> lit [dq] s;
     Some t
   }"

text \<open>\<open>getColumnTypeForOptions\<close> walks upwards from the line above the options line;
  the argument is that part of the file, nearest line first.\<close>

fun columnTypeAbove :: "string list \<Rightarrow> string" where
  "columnTypeAbove [] = ''unknown''"
| "columnTypeAbove (line # higher) =
     (case typeLineMatch line of
        Some t \<Rightarrow> t
      | None \<Rightarrow> if columnDef line \<noteq> None then ''unknown'' else columnTypeAbove higher)"

definition getColumnTypeForOptions :: "string list \<Rightarrow> nat \<Rightarrow> string" where
  "getColumnTypeForOptions lines optionsLineIndex = columnTypeAbove (rev (take optionsLineIndex lines))"

definition compatibilityRules :: "(string \<times> string list) list" where
  "compatibilityRules =
    [(''zerofill'', [''int'', ''decimal'', ''float'', ''double'']),
     (''unsigned'', [''int'', ''decimal'', ''float'', ''double'']),
     (''autoincrement'', [''int'']),
     (''primary'', [''int'', ''varchar'', ''string'']),
     (''not null'', [''int'', ''varchar'', ''string'', ''text'', ''boolean'', ''date'', ''datetime'',
        ''timestamp'', ''decimal'', ''float'', ''double'']),
     (''unique'', [''int'', ''varchar'', ''string'', ''text'']),
     (''index'', [''int'', ''varchar'', ''string'', ''text'', ''date'', ''datetime'', ''timestamp'']),
     (''required'', [''int'', ''varchar'', ''string'', ''text'', ''boolean'', ''date'', ''datetime'',
        ''timestamp'', ''decimal'', ''float'', ''double''])]"

definition isOptionCompatibleWithType :: "string \<Rightarrow> string \<Rightarrow> bool" where
  "isOptionCompatibleWithType option t =
     (case map_of compatibilityRules option of
        None \<Rightarrow> True
      | Some compatibleTypes \<Rightarrow> t \<in> set compatibleTypes)"

definition invalidSyntaxMessage :: "string \<Rightarrow> string" where
  "invalidSyntaxMessage bad =
     ''Invalid syntax '' @ [sq] @ bad @ [sq] @ '' in options array. All values must be quoted strings''"

text \<open>The body of \<^verbatim>\<open>optionMatches.forEach\<close>.\<close>

definition checkOption :: "string \<Rightarrow> nat \<Rightarrow> string \<Rightarrow> string \<Rightarrow> string \<Rightarrow> ProcessError list" where
  "checkOption columnType n path fileName option =
     (if trim option = [] then
        [mkError fileName ''Empty option found in options array. All options must have a value'' path n]
      else if option \<notin> set validOptions then
        [mkError fileName
           (''Invalid option '' @ [sq] @ option @ [sq] @ ''. Valid options: '' @ joinComma validOptions) path n]
      else if columnType \<noteq> ''unknown'' \<and> \<not> isOptionCompatibleWithType option columnType then
        [mkError fileName
           (''Option '' @ [sq] @ option @ [sq] @ '' is not compatible with type '' @ [sq] @ columnType @ [sq])
           path n]
      else [])"

definition validateColumnOptions :: "string \<Rightarrow> nat \<Rightarrow> string \<Rightarrow> string \<Rightarrow> string list \<Rightarrow> ProcessError list" where
  "validateColumnOptions line n path fileName lines =
     (case optionsMatch line of
        None \<Rightarrow> []
      | Some captured \<Rightarrow>
          (let optionsContent = trim captured in
           case invalidSyntaxMatch optionsContent of
             Some bad \<Rightarrow> [mkError fileName (invalidSyntaxMessage bad) path n]
           | None \<Rightarrow>
               (let columnType = getColumnTypeForOptions lines (n - 1)
                in concat (map (checkOption columnType n path fileName)
                                (globalMatches quotedAt optionsContent)))))"

subsection \<open>validateColumnProperties\<close>

text \<open>Braces opened minus braces closed on a line.\<close>

definition braceDelta :: "string \<Rightarrow> int" where
  "braceDelta line = countChar (CHR ''{'') line - countChar (CHR ''}'') line"

text \<open>The loop \<^verbatim>\<open>for (let j = i; j <= lineIndex; j++)\<close> of \<open>isInsideForeignKeyObject\<close>
  over the lines from the \<^verbatim>\<open>foreign: {\<close> line (where \<open>first\<close> holds) to the current one.\<close>

fun foreignWalk :: "int \<Rightarrow> bool \<Rightarrow> string list \<Rightarrow> bool" where
  "foreignWalk braceCount first [] = (0 < braceCount)"
| "foreignWalk braceCount first (currentLine # later) =
     (let braceCount' = braceCount + braceDelta currentLine
      in if braceCount' = 0 \<and> \<not> first then False else foreignWalk braceCount' False later)"

text \<open>The loop \<^verbatim>\<open>for (let i = lineIndex; i >= 0; i--)\<close>; the third argument is \<open>i + 1\<close>.\<close>

fun foreignScan :: "string list \<Rightarrow> nat \<Rightarrow> nat \<Rightarrow> bool" where
  "foreignScan lines lineIndex 0 = False"
| "foreignScan lines lineIndex (Suc i) =
     (let line = lines ! i in
      if hasForeignStart line then foreignWalk 0 True (take (lineIndex + 1 - i) (drop i lines))
      else if trim line = ''}'' \<or> strIncludes line ''};'' then False
      else foreignScan lines lineIndex i)"

definition isInsideForeignKeyObject :: "string list \<Rightarrow> nat \<Rightarrow> bool" where
  "isInsideForeignKeyObject lines lineIndex = foreignScan lines lineIndex (lineIndex + 1)"

text \<open>Index of the first line that satisfies \<open>P\<close>, counted from \<open>i\<close>.\<close>

fun firstIndexFrom :: "nat \<Rightarrow> ('a \<Rightarrow> bool) \<Rightarrow> 'a list \<Rightarrow> nat option" where
  "firstIndexFrom i P [] = None"
| "firstIndexFrom i P (x # xs) = (if P x then Some i else firstIndexFrom (Suc i) P xs)"

text \<open>The end of the \<^verbatim>\<open>@columns\<close> block: the first line \<open>j\<close> after the start at which the
  brace count is back to zero. The lines are those from index \<open>j\<close> on.\<close>

fun columnsEnd :: "int \<Rightarrow> nat \<Rightarrow> nat \<Rightarrow> string list \<Rightarrow> nat option" where
  "columnsEnd braceCount start j [] = None"
| "columnsEnd braceCount start j (currentLine # later) =
     (let braceCount' = braceCount + braceDelta currentLine
      in if braceCount' = 0 \<and> start < j then Some j else columnsEnd braceCount' start (Suc j) later)"

definition isInsideColumnsBlock :: "string list \<Rightarrow> nat \<Rightarrow> bool" where
  "isInsideColumnsBlock lines lineIndex =
     (case firstIndexFrom 0 (\<lambda>l. strIncludes l ''@columns'') lines of
        None \<Rightarrow> False
      | Some columnsStartLine \<Rightarrow>
          (case columnsEnd 0 columnsStartLine columnsStartLine (drop columnsStartLine lines) of
             None \<Rightarrow> False
           | Some columnsEndLine \<Rightarrow> columnsStartLine < lineIndex \<and> lineIndex < columnsEndLine))"

definition validForeignKeyProperties :: "string list" where
  "validForeignKeyProperties = [''table'', ''column'']"

definition validateColumnProperties :: "string \<Rightarrow> nat \<Rightarrow> string \<Rightarrow> string \<Rightarrow> string list \<Rightarrow> ProcessError list" where
  "validateColumnProperties line n path fileName lines =
     (case propertyKey line of
        None \<Rightarrow> []
      | Some (propertyName, afterColon) \<Rightarrow>
          if columnDef line \<noteq> None then []
          else if isInsideForeignKeyObject lines (n - 1) then
            (if propertyName \<notin> set validForeignKeyProperties then
               [mkError fileName
                  (''Invalid foreign key property '' @ [sq] @ propertyName @ [sq]
                     @ ''. Valid foreign key properties: '' @ joinComma validForeignKeyProperties) path n]
             else [])
          else
            (if isInsideColumnsBlock lines (n - 1) \<and> propertyName \<notin> set validProperties then
               [mkError fileName
                  (''Invalid property '' @ [sq] @ propertyName @ [sq] @ ''. Valid properties: ''
                     @ joinComma validProperties) path n]
             else [])
            @ (if dropWhile isSpace afterColon = [] then
                 [mkError fileName
                    (''Property '' @ [sq] @ propertyName @ [sq] @ '' is missing a value'') path n]
               else []))"

subsection \<open>validateRequiredColumnProperties\<close>

text \<open>\<^verbatim>\<open>/^\s*\}\s*;?\s*$/\<close> and \<^verbatim>\<open>/^\s*type\s*:/\<close>.\<close>

definition closesBlock :: "string \<Rightarrow> bool" where
  "closesBlock line =
     (case lit ''}'' (dropWhile isSpace line) of
        None \<Rightarrow> False
      | Some s1 \<Rightarrow>
          (let s2 = dropWhile isSpace s1;
               s3 = (case lit '';'' s2 of Some r \<Rightarrow> r | None \<Rightarrow> s2)
           in dropWhile isSpace s3 = []))"

definition hasTypeKey :: "string \<Rightarrow> bool" where
  "hasTypeKey line =
     (do { s \<leftarrow> ws line; s \<leftarrow> lit ''type'' s; s \<leftarrow> ws s; lit '':'' s } \<noteq> None)"

text \<open>The braces on the lines \<open>i\<close> to \<open>lineNumber - 1\<close> balance.\<close>

definition bracesBalance :: "string list \<Rightarrow> nat \<Rightarrow> nat \<Rightarrow> bool" where
  "bracesBalance lines i n =
     (let block = take (n - i) (drop i lines)
      in (\<Sum>l\<leftarrow>block. countChar (CHR ''{'') l) = (\<Sum>l\<leftarrow>block. countChar (CHR ''}'') l))"

text \<open>The loop \<^verbatim>\<open>for (let i = lineNumber - 2; i >= 0; i--)\<close>; the third argument is
  \<open>i + 1\<close>. The result is \<open>(columnStartLine, columnName)\<close>.\<close>

fun findColumnStart :: "string list \<Rightarrow> nat \<Rightarrow> nat \<Rightarrow> (nat \<times> string) option" where
  "findColumnStart lines n 0 = None"
| "findColumnStart lines n (Suc i) =
     (case columnDef (lines ! i) of
        Some name \<Rightarrow> if bracesBalance lines i n then Some (i, name) else findColumnStart lines n i
      | None \<Rightarrow> findColumnStart lines n i)"

definition validateRequiredColumnProperties :: "string list \<Rightarrow> nat \<Rightarrow> string \<Rightarrow> string \<Rightarrow> ProcessError list" where
  "validateRequiredColumnProperties lines n path fileName =
     (if \<not> closesBlock (lines ! (n - 1)) then []
      else
        (case findColumnStart lines n (n - 1) of
           None \<Rightarrow> []
         | Some (columnStartLine, columnName) \<Rightarrow>
             (let body = take (n - 1 - (columnStartLine + 1)) (drop (columnStartLine + 1) lines);
                  hasType = (\<exists>l \<in> set body. hasTypeKey l)
              in if \<not> hasType \<and> columnName \<noteq> ''foreign'' \<and> columnName \<noteq> ''defaultValue'' then
                   [mkError fileName
                      (''Column '' @ [sq] @ columnName @ [sq] @ '' is missing required '' @ [sq] @ ''type''
                         @ [sq] @ '' property'') path (columnStartLine + 1)]
                 else [])))"

subsection \<open>validateGeneralSyntax\<close>

text \<open>\<^verbatim>\<open>/@(database|table)\s*\(\s*"([^"]*)"\s*\)/\<close> and \<^verbatim>\<open>/@meta\s*\(\s*\{/\<close> at one position.\<close>

definition stringAnnotationAt :: "string \<Rightarrow> unit option" where
  "stringAnnotationAt s = do {
     s \<leftarrow> lit ''@'' s;
     s \<leftarrow> (case lit ''database'' s of Some r \<Rightarrow> Some r | None \<Rightarrow> lit ''table'' s);
     s \<leftarrow> ws s;
     s \<leftarrow> lit ''('' s; s \<leftarrow> ws s;
     s \<leftarrow> lit [dq] s;
     (_, s) \<leftarrow> many0 (\<lambda>c. c \<noteq> dq) s;
     s \<leftarrow> lit [dq] s; s \<leftarrow> ws s;
     _ \<leftarrow> lit '')'' s;
     Some ()
   }"

definition metaObjectAt :: "string \<Rightarrow> unit option" where
  "metaObjectAt s = do {
     s \<leftarrow> lit ''@meta'' s; s \<leftarrow> ws s;
     s \<leftarrow> lit ''('' s; s \<leftarrow> ws s;
     _ \<leftarrow> lit ''{'' s;
     Some ()
   }"

definition validateGeneralSyntax :: "string \<Rightarrow> nat \<Rightarrow> string \<Rightarrow> string \<Rightarrow> ProcessError list" where
  \<open>validateGeneralSyntax line n path fileName =
     (if length (filter isQuote line) mod 2 \<noteq> 0 then
        [mkError fileName ''Mismatched quotes detected'' path n]
      else [])
     @ (if (strIncludes line ''@database'' \<or> strIncludes line ''@table'')
           \<and> search stringAnnotationAt line = None then
          [mkError fileName ''Invalid annotation syntax. Expected format: @annotation("value")'' path n]
        else [])
     @ (if strIncludes line ''@meta'' \<and> search metaObjectAt line = None then
          [mkError fileName ''Invalid @meta syntax. Expected format: @meta({ ... })'' path n]
        else [])\<close>

subsection \<open>validateOverallStructure\<close>

definition validateOverallStructure :: "string list \<Rightarrow> string \<Rightarrow> string \<Rightarrow> ProcessError list" where
  "validateOverallStructure lines path fileName =
     (if \<not> (\<exists>line \<in> set lines. strIncludes line ''@database'') then
        [mkError fileName ''Missing required @database annotation'' path 1]
      else [])
     @ (if strIncludes path ''.table.cube'' \<and> \<not> (\<exists>line \<in> set lines. strIncludes line ''@columns'') then
          [mkError fileName ''Table cube files require @columns annotation'' path 1]
        else [])"

subsection \<open>validateCubeFile\<close>

text \<open>Empty lines and comment lines are skipped.\<close>

definition skipped :: "string \<Rightarrow> bool" where
  "skipped line = (trim line = [] \<or> startsWith (trim line) ''//'')"

text \<open>The errors that the body of the loop pushes for the line of index \<open>lineIndex\<close>.\<close>

definition lineErrors :: "string list \<Rightarrow> string \<Rightarrow> string \<Rightarrow> nat \<Rightarrow> ProcessError list" where
  "lineErrors lines path fileName lineIndex =
     (let line = lines ! lineIndex in
      if skipped line then []
      else validateAnnotations line (lineIndex + 1) path fileName
         @ validateDataTypes line (lineIndex + 1) path fileName lines
         @ validateColumnOptions line (lineIndex + 1) path fileName lines
         @ validateColumnProperties line (lineIndex + 1) path fileName lines
         @ validateRequiredColumnProperties lines (lineIndex + 1) path fileName
         @ validateGeneralSyntax line (lineIndex + 1) path fileName)"

definition contentErrors :: "string \<Rightarrow> string \<Rightarrow> string \<Rightarrow> ProcessError list" where
  "contentErrors content path fileName =
     (let lines = splitLines content
      in concat (map (lineErrors lines path fileName) [0..<length lines])
         @ validateOverallStructure lines path fileName)"

text \<open>Nothing after the read can throw, so the \<^verbatim>\<open>catch\<close> is entered exactly when
  \<^verbatim>\<open>readFileSync\<close> throws, with no error pushed before.\<close>

definition validateCubeFile :: "env \<Rightarrow> string \<Rightarrow> ValidationResult" where
  "validateCubeFile e path =
     (let errs =
        (case readFileSync e path of
           Inr content \<Rightarrow> contentErrors content path (basename e path (extname e path))
         | Inl msg \<Rightarrow>
             [\<lparr>itemName = basename e path (extname e path),
               error = ''Failed to read cube file: '' @ msg,
               filePath = Some path, lineNumber = Some 1\<rparr>])
      in \<lparr>isValid = (length errs = 0), errors = errs\<rparr>)"

section \<open>Schema: validation and dependencies of one file\<close>

text \<open>\<open>FileUtils.extractDatabaseNameFromCube\<close>:
  \<^verbatim>\<open>/@database\s*\(\s*["']([^"']+)["']\s*\)\s*;?/\<close> at one position (the optional end of
  the expression matches always).\<close>

definition databaseAt :: "string \<Rightarrow> string option" where
  "databaseAt s = do {
     s \<leftarrow> lit ''@database'' s; s \<leftarrow> ws s;
     s \<leftarrow> lit ''('' s; s \<leftarrow> ws s;
     s \<leftarrow> oneOf isQuote s;
     (name, s) \<leftarrow> many1 (\<lambda>c. \<not> isQuote c) s;
     s \<leftarrow> oneOf isQuote s; s \<leftarrow> ws s;
     _ \<leftarrow> lit '')'' s;
     Some name
   }"

definition extractDatabaseNameFromCube :: "env \<Rightarrow> string \<Rightarrow> response" where
  "extractDatabaseNameFromCube e path =
     (case readFileSync e path of
        Inl msg \<Rightarrow> \<lparr>status = 500, message = msg\<rparr>
      | Inr content \<Rightarrow>
          (case search databaseAt content of
             Some name \<Rightarrow> \<lparr>status = 200, message = name\<rparr>
           | None \<Rightarrow> \<lparr>status = 500, message = ''No @database directive found in file '' @ path\<rparr>))"

text \<open>Line numbers for the diagnostics: the first line that contains the text, else 1
  (also when the file cannot be read).\<close>

definition firstLineWith :: "env \<Rightarrow> string \<Rightarrow> (string \<Rightarrow> bool) \<Rightarrow> nat" where
  "firstLineWith e path P =
     (case readFileSync e path of
        Inl msg \<Rightarrow> 1
      | Inr content \<Rightarrow>
          (case firstIndexFrom 0 P (splitLines content) of Some i \<Rightarrow> i + 1 | None \<Rightarrow> 1))"

definition findDatabaseLineNumber :: "env \<Rightarrow> string \<Rightarrow> nat" where
  "findDatabaseLineNumber e path = firstLineWith e path (\<lambda>l. strIncludes l ''@database'')"

definition findForeignKeyLineNumber :: "env \<Rightarrow> string \<Rightarrow> string \<Rightarrow> nat" where
  "findForeignKeyLineNumber e path tbl =
     firstLineWith e path (\<lambda>l. strIncludes l (''table: '' @ [dq] @ tbl @ [dq])
                             \<or> strIncludes l (''table: '' @ [sq] @ tbl @ [sq]))"

text \<open>\<open>Schema.extractForeignKeyDependencies\<close> has the same body as
  \<open>DependencyResolver.extractForeignKeyReferences\<close>.\<close>

definition extractForeignKeyDependencies :: "env \<Rightarrow> string \<Rightarrow> string list" where
  "extractForeignKeyDependencies e path = extractForeignKeyReferences e path"

text \<open>The configuration file \<^verbatim>\<open>dbcube.config.js\<close> and the class \<^verbatim>\<open>Config\<close> of the engine
  package are not part of the repository. \<open>Inl msg\<close>: loading it throws an error with this
  message (that it does not export a function is such an error, thrown by the code itself);
  \<open>Inr getDatabase\<close>: it loads, and \<open>getDatabase name\<close> is \<open>Inl msg\<close> when the call
  throws, else \<open>Inr present\<close>.\<close>

type_synonym config = "string + (string \<Rightarrow> string + bool)"

datatype validation = Valid | Invalid ProcessError

definition availableText :: "(string \<Rightarrow> string + bool) \<Rightarrow> string" where
  "availableText getDatabase =
     (let availableDbs = filter (\<lambda>testName. getDatabase testName = Inr True)
                           [''test'', ''development'', ''production'', ''local'', ''main'']
      in if availableDbs \<noteq> [] then joinComma availableDbs else ''none found'')"

definition validateDatabaseConfiguration :: "env \<Rightarrow> config \<Rightarrow> string \<Rightarrow> validation" where
  "validateDatabaseConfiguration e cfg path =
     (let cubeValidation = validateCubeFile e path;
          failed = (\<lambda>msg. Invalid \<lparr>itemName = basename e path (extname e path), error = msg,
                       filePath = Some path, lineNumber = Some (findDatabaseLineNumber e path)\<rparr>)
      in case errors cubeValidation of
           firstError # _ \<Rightarrow> Invalid firstError
         | [] \<Rightarrow>
             (let dbResult = extractDatabaseNameFromCube e path in
              if status dbResult \<noteq> 200 then
                failed (''Error reading database directive: '' @ message dbResult)
              else
                (case cfg of
                   Inl msg \<Rightarrow> failed (''Database configuration validation failed: '' @ msg)
                 | Inr getDatabase \<Rightarrow>
                     (case getDatabase (message dbResult) of
                        Inl msg \<Rightarrow> failed (''Database configuration validation failed: '' @ msg)
                      | Inr True \<Rightarrow> Valid
                      | Inr False \<Rightarrow>
                          failed (''Database configuration '' @ [sq] @ message dbResult @ [sq]
                            @ '' not found in dbcube.config.js. Available: ''
                            @ availableText getDatabase)))))"

section \<open>Schema.refreshTables and Schema.freshTables\<close>

text \<open>
  The two methods differ in the words of their messages and in the arguments and order
  of the engine calls. The engine and \<^verbatim>\<open>TableProcessor\<close> are not part of the repository:
  \<open>run log args\<close> is the result of \<^verbatim>\<open>engine.run('schema_engine', args)\<close> after the calls
  \<open>log\<close> (\<open>Inl msg\<close>: the promise rejects with this message), and the other fields are
  the expressions that the code evaluates on the responses (\<open>Inl msg\<close>, \<open>Some msg\<close>:
  evaluating throws). \<open>isFile path\<close> is \<^verbatim>\<open>fs.statSync(path).isFile()\<close>, \<open>Inl msg\<close> when
  \<^verbatim>\<open>statSync\<close> throws.
\<close>

datatype mode = Refresh | Fresh

record engineResponse =
  responseStatus :: int
  responseMessage :: string
  responseData :: string

record world =
  isFile :: "string \<Rightarrow> string + bool"
  config :: config
  run :: "string list list \<Rightarrow> string list \<Rightarrow> string + engineResponse"
  actionsJson :: "engineResponse \<Rightarrow> string + string"
  queriesJson :: "engineResponse \<Rightarrow> string + string"
  createQuery :: "engineResponse \<Rightarrow> string + string"
  saveQuery :: "engineResponse \<Rightarrow> string \<Rightarrow> string option"

text \<open>The variables of the loop, with the list of the engine calls made so far.\<close>

record pass =
  totalTablesProcessed :: nat
  successCount :: nat
  errorCount :: nat
  processedTables :: "string list"
  passErrors :: "ProcessError list"
  failedTables :: "string set"
  engineCalls :: "string list list"

text \<open>How an iteration ends: the loop goes on, the process exits
  (\<open>returnFormattedError\<close> calls \<^verbatim>\<open>process.exit(1)\<close>), or an exception leaves the method.\<close>

datatype flow = Continue pass | Exit pass | Thrown string pass

datatype outcome = Done | Exited | Raised string

definition parseArgs :: "mode \<Rightarrow> string \<Rightarrow> string list" where
  "parseArgs m path =
     (case m of
        Refresh \<Rightarrow> [''--action'', ''parse_table'', ''--mode'', ''refresh'', ''--schema-path'', path]
      | Fresh \<Rightarrow> [''--action'', ''parse_table'', ''--schema-path'', path, ''--mode'', ''fresh''])"

definition generateArgs :: "mode \<Rightarrow> string \<Rightarrow> string list" where
  "generateArgs m parseJson =
     (case m of
        Refresh \<Rightarrow> [''--action'', ''generate'', ''--mode'', ''refresh'', ''--dml'', parseJson]
      | Fresh \<Rightarrow> [''--action'', ''generate'', ''--dml'', parseJson])"

definition executeArgs :: "mode \<Rightarrow> string \<Rightarrow> string list" where
  "executeArgs m parseJsonQueries =
     (case m of
        Refresh \<Rightarrow> [''--action'', ''execute'', ''--mode'', ''refresh'', ''--dml'', parseJsonQueries]
      | Fresh \<Rightarrow> [''--action'', ''execute'', ''--mode'', ''fresh'', ''--dml'', parseJsonQueries])"

text \<open>The third engine call and what follows it. In \<open>freshTables\<close> the create query is
  read before the call, in \<open>refreshTables\<close> after it.\<close>

definition executePhase :: "mode \<Rightarrow> world \<Rightarrow> engineResponse \<Rightarrow> engineResponse \<Rightarrow> string list list
    \<Rightarrow> string list list \<times> outcome" where
  "executePhase m w dml queries log =
     (case (if m = Fresh then createQuery w queries else Inr []) of
        Inl msg \<Rightarrow> (log, Raised msg)
      | Inr early \<Rightarrow>
          (case queriesJson w queries of
             Inl msg \<Rightarrow> (log, Raised msg)
           | Inr parseJsonQueries \<Rightarrow>
               (let args = executeArgs m parseJsonQueries; log' = log @ [args] in
                case run w log args of
                  Inl msg \<Rightarrow> (log', Raised msg)
                | Inr response \<Rightarrow>
                    if responseStatus response \<noteq> 200 then (log', Exited)
                    else
                      (case (if m = Fresh then Inr early else createQuery w queries) of
                         Inl msg \<Rightarrow> (log', Raised msg)
                       | Inr q \<Rightarrow>
                           (case saveQuery w dml q of
                              Some msg \<Rightarrow> (log', Raised msg)
                            | None \<Rightarrow> (log', Done))))))"

text \<open>The engine calls of one table, from \<^verbatim>\<open>parse_table\<close> on.\<close>

definition enginePhase :: "mode \<Rightarrow> world \<Rightarrow> string \<Rightarrow> string list list \<Rightarrow> string list list \<times> outcome" where
  "enginePhase m w path log =
     (let args1 = parseArgs m path; log1 = log @ [args1] in
      case run w log args1 of
        Inl msg \<Rightarrow> (log1, Raised msg)
      | Inr dml \<Rightarrow>
          if responseStatus dml \<noteq> 200 then (log1, Exited)
          else
            (case actionsJson w dml of
               Inl msg \<Rightarrow> (log1, Raised msg)
             | Inr parseJson \<Rightarrow>
                 (let args2 = generateArgs m parseJson; log2 = log1 @ [args2] in
                  case run w log1 args2 of
                    Inl msg \<Rightarrow> (log2, Raised msg)
                  | Inr queries \<Rightarrow>
                      if responseStatus queries \<noteq> 200 then (log2, Exited)
                      else executePhase m w dml queries log2)))"

definition dependencyMessage :: "mode \<Rightarrow> string \<Rightarrow> string list \<Rightarrow> string" where
  "dependencyMessage m tbl missingDependencies =
     (case m of Refresh \<Rightarrow> ''Cannot refresh table '' | Fresh \<Rightarrow> ''Cannot create table '')
     @ [sq] @ tbl @ [sq] @ '' because it depends on failed table(s): '' @ joinComma missingDependencies"

definition tablePath :: "env \<Rightarrow> string \<Rightarrow> string" where
  "tablePath e file = (if isAbsolute e file then file else joinCwdDbcube e file)"

text \<open>What the three error branches of the loop body do to the variables.\<close>

definition recordFailure :: "string \<Rightarrow> ProcessError \<Rightarrow> pass \<Rightarrow> pass" where
  "recordFailure tbl err st =
     st\<lparr>passErrors := passErrors st @ [err],
        failedTables := insert tbl (failedTables st),
        errorCount := errorCount st + 1\<rparr>"

text \<open>The body of the loop over the ordered files.\<close>

definition processTable :: "mode \<Rightarrow> env \<Rightarrow> world \<Rightarrow> pass \<Rightarrow> string \<Rightarrow> flow" where
  "processTable m e w st file =
     (let path = tablePath e file in
      case isFile w path of
        Inl msg \<Rightarrow> Thrown msg st
      | Inr False \<Rightarrow> Continue st
      | Inr True \<Rightarrow>
          (let tbl = nameOrBasename e Table file path in
           case validateDatabaseConfiguration e (config w) path of
             Invalid err \<Rightarrow> Continue (recordFailure tbl err st)
           | Valid \<Rightarrow>
               (let deps = extractForeignKeyDependencies e path;
                    missingDependencies = filter (\<lambda>dep. dep \<in> failedTables st) deps
                in if missingDependencies \<noteq> [] then
                     Continue (recordFailure tbl
                       \<lparr>itemName = tbl,
                        error = dependencyMessage m tbl missingDependencies,
                        filePath = Some path,
                        lineNumber = Some (findForeignKeyLineNumber e path (hd missingDependencies))\<rparr> st)
                   else
                     (case enginePhase m w path (engineCalls st) of
                        (log, Done) \<Rightarrow>
                          Continue (st\<lparr>engineCalls := log,
                                       successCount := successCount st + 1,
                                       processedTables := processedTables st @ [tbl],
                                       totalTablesProcessed := totalTablesProcessed st + 1\<rparr>)
                      | (log, Exited) \<Rightarrow> Exit (st\<lparr>engineCalls := log\<rparr>)
                      | (log, Raised msg) \<Rightarrow>
                          Continue (recordFailure tbl
                            \<lparr>itemName = tbl, error = msg, filePath = Some path, lineNumber = None\<rparr>
                            (st\<lparr>engineCalls := log\<rparr>))))))"

fun runFiles :: "(pass \<Rightarrow> string \<Rightarrow> flow) \<Rightarrow> pass \<Rightarrow> string list \<Rightarrow> flow" where
  "runFiles step st [] = Continue st"
| "runFiles step st (file # files) =
     (case step st file of
        Continue st' \<Rightarrow> runFiles step st' files
      | Exit st' \<Rightarrow> Exit st'
      | Thrown msg st' \<Rightarrow> Thrown msg st')"

definition initialPass :: pass where
  "initialPass = \<lparr>totalTablesProcessed = 0, successCount = 0, errorCount = 0, processedTables = [],
     passErrors = [], failedTables = {}, engineCalls = []\<rparr>"

text \<open>The pass over the files that \<open>getCubeFilesRecursively\<close> found (not empty, else the
  method throws before the loop): the order is resolved, stored and read back, and the
  files are processed in that order. \<open>previous\<close> is the content of the order file
  before the pass and \<open>writable\<close> says whether saving the new order succeeds.\<close>

definition tablesPass :: "mode \<Rightarrow> env \<Rightarrow> world \<Rightarrow> ExecutionOrder option \<Rightarrow> bool \<Rightarrow> string \<Rightarrow> string list \<Rightarrow> flow" where
  "tablesPass m e w previous writable now cubeFiles =
     (let executionOrder = resolveDependencies e now cubeFiles Table;
          stored = (if writable then Some executionOrder else previous);
          orderedCubeFiles = orderCubeFiles e stored cubeFiles Table
      in runFiles (processTable m e w) initialPass orderedCubeFiles)"

section \<open>Lines of the options form\<close>

text \<open>The line \<^verbatim>\<open>options: ["o1", "o2", ...];\<close> after the indentation \<open>indent\<close>, with
  the blanks \<open>pad1\<close> and \<open>pad2\<close> inside the brackets.\<close>

definition quoteOption :: "string \<Rightarrow> string" where
  "quoteOption option = [dq] @ option @ [dq]"

definition isBlank :: "char \<Rightarrow> bool" where
  "isBlank c = (c = CHR '' '' \<or> c = CHR 0x09)"

definition optionsLine :: "string \<Rightarrow> string \<Rightarrow> string list \<Rightarrow> string \<Rightarrow> string" where
  "optionsLine indent pad1 opts pad2 =
     indent @ ''options: ['' @ pad1 @ joinComma (map quoteOption opts) @ pad2 @ ''];''"

text \<open>The same line with single-quoted entries.\<close>

definition singleQuoteOption :: "string \<Rightarrow> string" where
  "singleQuoteOption option = [sq] @ option @ [sq]"

definition singleQuotedOptionsLine :: "string \<Rightarrow> string \<Rightarrow> string list \<Rightarrow> string \<Rightarrow> string" where
  "singleQuotedOptionsLine indent pad1 opts pad2 =
     indent @ ''options: ['' @ pad1 @ joinComma (map singleQuoteOption opts) @ pad2 @ ''];''"

section \<open>Auxiliary notions for the proofs\<close>

text \<open>Every table that was queued or emitted is a key of the in-degree map whose degree
  is no longer positive, and no table occurs twice.\<close>

definition settled :: "string list \<Rightarrow> (string \<times> int) list \<Rightarrow> bool" where
  "settled xs m \<longleftrightarrow> distinct xs \<and> (\<forall>k\<in>set xs. has m k \<and> getOr0 m k \<le> 0)"

text \<open>The files that the loop over the stored order emits, as a function of the map
  alone, and the invariant of the file map: its keys are distinct and every file is
  stored under its own table name.\<close>

fun picks :: "string list \<Rightarrow> (string \<times> string) list \<Rightarrow> string list" where
  "picks [] m = []"
| "picks (t # ts) m =
     (case map_of m t of Some f \<Rightarrow> f # picks ts (AList.delete t m) | None \<Rightarrow> picks ts m)"

definition keyed :: "(string \<Rightarrow> string) \<Rightarrow> (string \<times> string) list \<Rightarrow> bool" where
  "keyed nameOf m \<longleftrightarrow> distinct (map fst m) \<and> (\<forall>p\<in>set m. nameOf (snd p) = fst p)"

text \<open>The error of a \<^verbatim>\<open>varchar\<close> column without length, at line \<open>n\<close>.\<close>

definition isLengthError :: "nat \<Rightarrow> ProcessError \<Rightarrow> bool" where
  "isLengthError n er \<longleftrightarrow> error er = lengthMessage \<and> lineNumber er = Some n"

text \<open>The elements of a list in the order of their first occurrence, each once
  (\<open>firstsFrom seen\<close> leaves out those in \<open>seen\<close>), and the last of the files that have
  a given table name.\<close>

fun firstsFrom :: "string list \<Rightarrow> string list \<Rightarrow> string list" where
  "firstsFrom seen [] = []"
| "firstsFrom seen (x # xs) =
     (if x \<in> set seen then firstsFrom seen xs else x # firstsFrom (x # seen) xs)"

definition firstOccurrences :: "string list \<Rightarrow> string list" where
  "firstOccurrences xs = firstsFrom [] xs"

definition lastFileNamed :: "(string \<Rightarrow> string) \<Rightarrow> string list \<Rightarrow> string \<Rightarrow> string" where
  "lastFileNamed nameOf files n = last (filter (\<lambda>f. nameOf f = n) files)"

section \<open>Concrete inputs\<close>

text \<open>A POSIX file system given by a list of paths with their contents, the project
  root being \<^verbatim>\<open>/proj\<close>. \<open>posixBasename\<close> and \<open>posixExtname\<close> are \<^verbatim>\<open>path.basename\<close> and
  \<^verbatim>\<open>path.extname\<close> on the last segment of the path, trailing slashes ignored.\<close>

definition lastSegment :: "string \<Rightarrow> string" where
  "lastSegment p =
     rev (takeWhile (\<lambda>c. c \<noteq> CHR ''/'') (dropWhile (\<lambda>c. c = CHR ''/'') (rev p)))"

definition posixBasename :: "string \<Rightarrow> string \<Rightarrow> string" where
  "posixBasename p ext =
     (let b = lastSegment p
      in if ext \<noteq> [] \<and> p = ext then []
         else if ext \<noteq> [] \<and> b \<noteq> ext \<and> length ext \<le> length b
                 \<and> drop (length b - length ext) b = ext
         then take (length b - length ext) b else b)"

definition posixExtname :: "string \<Rightarrow> string" where
  "posixExtname p =
     (let b = lastSegment p;
          e = rev (takeWhile (\<lambda>c. c \<noteq> CHR ''.'') (rev b))
      in if CHR ''.'' \<in> set (tl b) \<and> b \<noteq> ''..'' then CHR ''.'' # e else [])"

definition diskEnv :: "(string \<times> string) list \<Rightarrow> env" where
  "diskEnv disk = \<lparr>
     readFileSync = (\<lambda>p. case map_of disk p of
        Some c \<Rightarrow> Inr c
      | None \<Rightarrow> Inl (''ENOENT: no such file or directory, open '' @ [sq] @ p @ [sq])),
     existsSync = (\<lambda>p. map_of disk p \<noteq> None),
     isAbsolute = (\<lambda>p. startsWith p ''/''),
     resolve = (\<lambda>p. ''/proj/'' @ p),
     joinCwdDbcube = (\<lambda>p. ''/proj/dbcube/'' @ p),
     basename = posixBasename,
     extname = posixExtname\<rparr>"

definition cubeText :: "string \<Rightarrow> string list \<Rightarrow> string" where
  \<open>cubeText name refs =
     ''@database("main");'' @ [nl] @
     ''@meta({ name: "'' @ name @ ''"; });'' @ [nl] @
     ''@columns({'' @ [nl] @
     ''  id: { type: "int"; };'' @ [nl] @
     concat (map (\<lambda>r. ''  '' @ r @ ''_id: { type: "int"; foreign: { table: "'' @ r @ ''", column: "id" }; };'' @ [nl]) refs) @
     ''});''\<close>

definition abcDisk :: "(string \<times> string) list" where
  "abcDisk = [(''/proj/dbcube/c.table.cube'', cubeText ''C'' [''B'']),
              (''/proj/dbcube/b.table.cube'', cubeText ''B'' [''A'']),
              (''/proj/dbcube/a.table.cube'', cubeText ''A'' [])]"

definition abcFiles :: "string list" where
  "abcFiles = [''/proj/dbcube/c.table.cube'', ''/proj/dbcube/b.table.cube'', ''/proj/dbcube/a.table.cube'']"

definition cycleDeps :: "TableDependency list" where
  "cycleDeps = [\<lparr>tableName = ''A'', depFilePath = ''/proj/dbcube/a.table.cube'', dependencies = [''B'']\<rparr>,
                \<lparr>tableName = ''B'', depFilePath = ''/proj/dbcube/b.table.cube'', dependencies = [''A'']\<rparr>]"

definition dupDisk :: "(string \<times> string) list" where
  "dupDisk = [(''/proj/dbcube/users.table.cube'', cubeText ''users'' []),
              (''/proj/dbcube/users_old.table.cube'', cubeText ''users'' [])]"

definition dupFiles :: "string list" where
  "dupFiles = [''/proj/dbcube/users.table.cube'', ''/proj/dbcube/users_old.table.cube'']"

definition storedOrder :: ExecutionOrder where
  "storedOrder = \<lparr>tables = [''A'', ''C'', ''B''], seeders = [], timestamp = ''2024-01-01T00:00:00.000Z''\<rparr>"

text \<open>Lines and files for the validator.\<close>

definition singleQuotedLine :: string where
  "singleQuotedLine = ''  options: ['' @ [sq] @ ''primary'' @ [sq] @ ''];''"

definition bareFirstLine :: string where
  \<open>bareFirstLine = ''  options: [primary, "unique"];''\<close>

definition cubePath :: string where
  "cubePath = ''/proj/dbcube/users.table.cube''"

definition commentCube :: string where
  \<open>commentCube = ''// type: "varchar"'' @ [nl] @
     ''options: ["length specification", type: "varchar"];''\<close>

definition varcharCube :: string where
  \<open>varcharCube = ''@database("main");'' @ [nl] @
     ''@columns({'' @ [nl] @
     ''  email: {'' @ [nl] @
     ''    type: "varchar";'' @ [nl] @
     ''  };'' @ [nl] @
     ''});''\<close>

definition mentions :: "string \<Rightarrow> nat \<Rightarrow> ProcessError \<Rightarrow> bool" where
  "mentions phrase n er \<longleftrightarrow> strIncludes (error er) phrase \<and> lineNumber er = Some n"

text \<open>A simulated pass: the file of table A has an unknown column type and fails the
  validation, the file of table B is valid and references A; the engine answers every
  call with status 200.\<close>

definition brokenCube :: string where
  \<open>brokenCube = ''@database("main");'' @ [nl] @
     ''@meta({ name: "A"; });'' @ [nl] @
     ''@columns({'' @ [nl] @
     ''  id: { type: "integer"; };'' @ [nl] @
     ''});''\<close>

definition simDisk :: "(string \<times> string) list" where
  "simDisk = [(''/proj/dbcube/a.table.cube'', brokenCube),
              (''/proj/dbcube/b.table.cube'', cubeText ''B'' [''A''])]"

definition simFiles :: "string list" where
  "simFiles = [''/proj/dbcube/b.table.cube'', ''/proj/dbcube/a.table.cube'']"

definition okResponse :: engineResponse where
  "okResponse = \<lparr>responseStatus = 200, responseMessage = ''ok'', responseData = ''{}''\<rparr>"

definition simWorld :: world where
  "simWorld = \<lparr>
     isFile = (\<lambda>p. Inr True),
     config = Inr (\<lambda>name. Inr (name = ''main'')),
     run = (\<lambda>log args. Inr okResponse),
     actionsJson = (\<lambda>r. Inr ''[]''),
     queriesJson = (\<lambda>r. Inr ''{}''),
     createQuery = (\<lambda>r. Inr ''CREATE TABLE t''),
     saveQuery = (\<lambda>r q. None)\<rparr>"







section \<open>Properties of topologicalSort\<close>

lemma has_keys: "has m k \<longleftrightarrow> k \<in> fst ` set m"
  by (simp add: has_def map_of_eq_None_iff)

lemma relax_keys: "fst ` set (snd (relax n s)) = fst ` set (snd s)"
  by (cases s) (auto simp: relax_def Let_def has_keys dom_update)

lemma fold_relax_keys: "fst ` set (snd (fold relax ns s)) = fst ` set (snd s)"
  by (induction ns arbitrary: s) (simp_all add: relax_keys)

lemma getOr0_update: "getOr0 (AList.update n d m) k = (if k = n then d else getOr0 m k)"
  by (simp add: getOr0_def update_conv')

lemma has_update: "has (AList.update n d m) k \<longleftrightarrow> k = n \<or> has m k"
  by (auto simp: has_def update_conv')

lemma settled_update:
  "settled xs m \<Longrightarrow> (n \<in> set xs \<Longrightarrow> d \<le> 0) \<Longrightarrow> settled xs (AList.update n d m)"
  by (auto simp: settled_def getOr0_update has_update)

lemma relax_settled:
  assumes "settled (r @ q) m"
  shows "settled (r @ fst (relax n (q, m))) (snd (relax n (q, m)))"
proof (cases "has m n")
  case False
  with assms show ?thesis by (simp add: relax_def)
next
  case True
  show ?thesis
  proof (cases "getOr0 m n = 1")
    case one: True
    have "n \<notin> set (r @ q)"
    proof
      assume "n \<in> set (r @ q)"
      with assms have "getOr0 m n \<le> 0" unfolding settled_def by blast
      with one show False by simp
    qed
    with assms True one show ?thesis
      by (auto simp: relax_def Let_def settled_def getOr0_update has_update)
  next
    case False
    have "getOr0 m n - 1 \<le> 0" if "n \<in> set (r @ q)"
    proof -
      from assms that have "getOr0 m n \<le> 0" unfolding settled_def by blast
      then show ?thesis by simp
    qed
    from settled_update[OF assms this] True False show ?thesis
      by (simp add: relax_def Let_def)
  qed
qed

lemma fold_relax_settled:
  "settled (r @ q) m \<Longrightarrow> settled (r @ fst (fold relax ns (q, m))) (snd (fold relax ns (q, m)))"
proof (induction ns arbitrary: q m)
  case Nil
  then show ?case by simp
next
  case (Cons n ns)
  from relax_settled[OF Cons.prems, of n]
  have "settled (r @ fst (relax n (q, m))) (snd (relax n (q, m)))" .
  from Cons.IH[OF this] show ?case by simp
qed

lemma kahn_settled:
  "settled (result @ queue) inDegree \<Longrightarrow>
   settled (fst (kahn graph queue result inDegree)) (snd (kahn graph queue result inDegree))"
proof (induction graph queue result inDegree rule: kahn.induct)
  case (1 graph result inDegree)
  then show ?case by simp
next
  case (2 graph current queue result inDegree)
  define currentDeps where "currentDeps = (case map_of graph current of None \<Rightarrow> [] | Some ds \<Rightarrow> ds)"
  define s where "s = fold relax currentDeps (queue, inDegree)"
  from "2.prems" have "settled ((result @ [current]) @ queue) inDegree" by simp
  from fold_relax_settled[OF this, of currentDeps]
  have "settled ((result @ [current]) @ fst s) (snd s)" by (simp add: s_def)
  from "2.IH"[OF currentDeps_def s_def this]
  show ?case by (simp add: currentDeps_def s_def Let_def)
qed

lemma kahn_keys: "fst ` set (snd (kahn graph queue result inDegree)) = fst ` set inDegree"
proof (induction graph queue result inDegree rule: kahn.induct)
  case (1 graph result inDegree)
  then show ?case by simp
next
  case (2 graph current queue result inDegree)
  define currentDeps where "currentDeps = (case map_of graph current of None \<Rightarrow> [] | Some ds \<Rightarrow> ds)"
  define s where "s = fold relax currentDeps (queue, inDegree)"
  have "fst ` set (snd s) = fst ` set inDegree"
    using fold_relax_keys[of currentDeps "(queue, inDegree)"] by (simp add: s_def)
  with "2.IH"[OF currentDeps_def s_def]
  show ?case by (simp add: currentDeps_def s_def Let_def)
qed

lemma initInDegree_keys_aux:
  "fst ` set (fold (\<lambda>dep m. AList.update (tableName dep) (0::int) m) deps acc)
   = fst ` set acc \<union> tableName ` set deps"
  by (induction deps arbitrary: acc) (auto simp: dom_update)

lemma initInDegree_distinct_aux:
  "distinct (map fst acc) \<Longrightarrow>
   distinct (map fst (fold (\<lambda>dep m. AList.update (tableName dep) (0::int) m) deps acc))"
  by (induction deps arbitrary: acc) (auto simp: distinct_update)

lemma countDependency_keys:
  "name \<in> fst ` set m \<Longrightarrow> fst ` set (countDependency name d m) = fst ` set m"
  by (auto simp: countDependency_def dom_update)

lemma countDependency_distinct:
  "distinct (map fst m) \<Longrightarrow> distinct (map fst (countDependency name d m))"
  by (auto simp: countDependency_def distinct_update)

lemma fold_countDependency_keys:
  "name \<in> fst ` set m \<Longrightarrow> fst ` set (fold (countDependency name) ds m) = fst ` set m"
  by (induction ds arbitrary: m) (simp_all add: countDependency_keys)

lemma fold_countDependency_distinct:
  "distinct (map fst m) \<Longrightarrow> distinct (map fst (fold (countDependency name) ds m))"
  by (induction ds arbitrary: m) (simp_all add: countDependency_distinct)

lemma calcInDegree_keys:
  "tableName ` set deps \<subseteq> fst ` set m \<Longrightarrow> fst ` set (calcInDegree deps m) = fst ` set m"
  unfolding calcInDegree_def
  by (induction deps arbitrary: m) (simp_all add: fold_countDependency_keys)

lemma calcInDegree_distinct:
  "distinct (map fst m) \<Longrightarrow> distinct (map fst (calcInDegree deps m))"
  unfolding calcInDegree_def
  by (induction deps arbitrary: m) (simp_all add: fold_countDependency_distinct)

lemma inDegree_keys:
  "fst ` set (calcInDegree deps (initInDegree deps)) = tableName ` set deps"
proof -
  have k: "fst ` set (initInDegree deps) = tableName ` set deps"
    unfolding initInDegree_def using initInDegree_keys_aux[of deps "[]"] by simp
  then show ?thesis using calcInDegree_keys[of deps "initInDegree deps"] by simp
qed

lemma inDegree_distinct: "distinct (map fst (calcInDegree deps (initInDegree deps)))"
  unfolding initInDegree_def
  by (intro calcInDegree_distinct initInDegree_distinct_aux) simp

lemma initialQueue_settled:
  assumes "distinct (map fst m)"
  shows "settled (initialQueue m) m"
proof -
  have d: "distinct (initialQueue m)"
    unfolding initialQueue_def using assms by (simp add: distinct_map_filter)
  have "has m k \<and> getOr0 m k \<le> 0" if "k \<in> set (initialQueue m)" for k
  proof -
    from that have "(k, 0) \<in> set m" by (auto simp: initialQueue_def)
    with assms have "map_of m k = Some 0" by simp
    then show ?thesis by (simp add: has_def getOr0_def)
  qed
  with d show ?thesis by (simp add: settled_def)
qed

lemma kahnResult_distinct: "distinct (kahnResult deps)"
  and kahnResult_subset: "set (kahnResult deps) \<subseteq> tableName ` set deps"
proof -
  define m where "m = calcInDegree deps (initInDegree deps)"
  have "settled ([] @ initialQueue m) m"
    using initialQueue_settled[of m] inDegree_distinct[of deps] by (simp add: m_def)
  from kahn_settled[OF this, of "buildGraph deps"]
  have s: "settled (kahnResult deps) (snd (kahn (buildGraph deps) (initialQueue m) [] m))"
    by (simp add: kahnResult_def m_def Let_def)
  then show "distinct (kahnResult deps)" by (simp add: settled_def)
  from s have "set (kahnResult deps) \<subseteq> fst ` set (snd (kahn (buildGraph deps) (initialQueue m) [] m))"
    by (auto simp: settled_def has_keys)
  then show "set (kahnResult deps) \<subseteq> tableName ` set deps"
    by (simp add: kahn_keys m_def inDegree_keys)
qed

lemma appendRemaining_distinct_names:
  "distinct (map tableName deps) \<Longrightarrow>
   appendRemaining deps r = r @ filter (\<lambda>n. n \<notin> set r) (map tableName deps)"
proof (induction deps arbitrary: r)
  case Nil
  then show ?case by (simp add: appendRemaining_def)
next
  case (Cons d ds)
  have step: "appendRemaining (d # ds) r =
      appendRemaining ds (if tableName d \<notin> set r then r @ [tableName d] else r)"
    by (simp add: appendRemaining_def)
  from Cons.prems have nd: "tableName d \<notin> tableName ` set ds" and dd: "distinct (map tableName ds)"
    by auto
  show ?case
  proof (cases "tableName d \<in> set r")
    case True
    with step Cons.IH[OF dd, of r] show ?thesis by simp
  next
    case False
    have "filter (\<lambda>n. n \<notin> set (r @ [tableName d])) (map tableName ds)
        = filter (\<lambda>n. n \<notin> set r) (map tableName ds)"
    proof (rule filter_cong)
      from nd have nd': "tableName d \<notin> set (map tableName ds)" by simp
      fix n assume "n \<in> set (map tableName ds)"
      with nd' have "n \<noteq> tableName d" by blast
      then show "(n \<notin> set (r @ [tableName d])) = (n \<notin> set r)" by simp
    qed simp
    with False step Cons.IH[OF dd, of "r @ [tableName d]"] show ?thesis by simp
  qed
qed

text \<open>
  Claim C3. For table dependencies with pairwise distinct table names, cyclic or not,
  \<open>topologicalSort\<close> returns (it is a total function: the loop was shown to terminate)
  the tables that the loop of Kahn's algorithm emitted, followed by the remaining tables
  in the order of the input, and every table name of the input occurs exactly once in
  the result.
\<close>

theorem topologicalSort_complete:
  assumes "distinct (map tableName deps)"
  shows "topologicalSort deps
           = kahnResult deps @ filter (\<lambda>n. n \<notin> set (kahnResult deps)) (map tableName deps)
       \<and> mset (topologicalSort deps) = mset (map tableName deps)"
proof -
  let ?K = "kahnResult deps" and ?names = "map tableName deps"
  let ?R = "?K @ filter (\<lambda>n. n \<notin> set ?K) ?names"
  have dK: "distinct ?K" by (rule kahnResult_distinct)
  have sK: "set ?K \<subseteq> set ?names" using kahnResult_subset[of deps] by simp
  have shape: "topologicalSort deps = ?R"
  proof (cases "length ?K = length deps")
    case False
    then show ?thesis
      by (simp add: topologicalSort_def Let_def appendRemaining_distinct_names[OF assms])
  next
    case True
    have "card (set ?K) = length ?K" by (rule distinct_card[OF dK])
    moreover have "card (set ?names) = length ?names" by (rule distinct_card[OF assms])
    ultimately have "card (set ?K) = card (set ?names)" using True by simp
    with sK have "set ?K = set ?names" by (simp add: card_subset_eq)
    then have "filter (\<lambda>n. n \<notin> set ?K) ?names = []" by simp
    with True show ?thesis by (simp add: topologicalSort_def Let_def)
  qed
  have dR: "distinct ?R" using dK assms by auto
  have sR: "set ?R = set ?names" using sK by auto
  from set_eq_iff_mset_eq_distinct[OF dR assms] sR have "mset ?R = mset ?names"
    by blast
  with shape show ?thesis by simp
qed

theorem topologicalSort_complete_witness:
  "distinct (map tableName cycleDeps) \<and>
   kahnResult cycleDeps = [] \<and>
   topologicalSort cycleDeps = [''A'', ''B''] \<and>
   mset (topologicalSort cycleDeps) = mset (map tableName cycleDeps)"
proof -
  have d: "distinct (map tableName cycleDeps)" by (simp add: cycleDeps_def)
  have k: "kahnResult cycleDeps = []" by code_simp
  from topologicalSort_complete[OF d] d k show ?thesis by (simp add: cycleDeps_def)
qed

text \<open>A chain of three tables given dependents first: only the table without known
  dependency is emitted by the loop, the other two follow in the order of the input.\<close>

lemma topologicalSort_chain:
  assumes "a \<noteq> b" "b \<noteq> c" "a \<noteq> c"
  shows "topologicalSort
           [\<lparr>tableName = c, depFilePath = pc, dependencies = [b]\<rparr>,
            \<lparr>tableName = b, depFilePath = pb, dependencies = [a]\<rparr>,
            \<lparr>tableName = a, depFilePath = pa, dependencies = []\<rparr>] = [a, c, b]"
  using assms
  by (simp add: topologicalSort_def kahnResult_def calcInDegree_def initInDegree_def buildGraph_def
      countDependency_def has_def getOr0_def initialQueue_def appendRemaining_def Let_def)

text \<open>
  Claim C1 does not hold of the code. The files are given in the order C, B, A, where
  C references B, B references A and A references nothing: the returned table order is
  A, C, B, so C comes before the table B that it references.
\<close>

theorem resolveDependencies_chain:
  "tables (resolveDependencies (diskEnv abcDisk) now abcFiles Table) = [''A'', ''C'', ''B'']"
  by code_simp

section \<open>Properties of orderCubeFiles\<close>

lemma fold_pickOrdered:
  "fold pickOrdered ol (acc, m) = (acc @ picks ol m, filter (\<lambda>p. fst p \<notin> set ol) m)"
proof (induction ol arbitrary: acc m)
  case Nil
  then show ?case by simp
next
  case (Cons t ts)
  show ?case
  proof (cases "map_of m t")
    case None
    then have "t \<notin> fst ` set m" by (simp add: map_of_eq_None_iff)
    then have "filter (\<lambda>p. fst p \<notin> set (t # ts)) m = filter (\<lambda>p. fst p \<notin> set ts) m"
      by (intro filter_cong) auto
    with None Cons.IH[of acc m] show ?thesis by (simp add: pickOrdered_def)
  next
    case (Some f)
    have "filter (\<lambda>p. fst p \<notin> set ts) (AList.delete t m) = filter (\<lambda>p. fst p \<notin> set (t # ts)) m"
      by (auto simp: AList.delete_eq intro: filter_cong)
    with Some Cons.IH[of "acc @ [f]" "AList.delete t m"] show ?thesis
      by (simp add: pickOrdered_def)
  qed
qed

lemma reorder_picks:
  "reorder nameOf ol files =
     picks ol (buildFileMap nameOf files)
     @ map snd (filter (\<lambda>p. fst p \<notin> set ol) (buildFileMap nameOf files))"
  by (simp add: reorder_def fold_pickOrdered)

lemma picks_cong: "map_of m = map_of m' \<Longrightarrow> picks ol m = picks ol m'"
proof (induction ol arbitrary: m m')
  case Nil
  then show ?case by simp
next
  case (Cons t ts)
  from Cons.prems have "map_of (AList.delete t m) = map_of (AList.delete t m')"
    by (simp add: delete_conv')
  from Cons.IH[OF this] Cons.IH[OF Cons.prems] Cons.prems show ?case
    by (simp split: option.splits)
qed

lemma keyed_delete: "keyed nameOf m \<Longrightarrow> keyed nameOf (AList.delete t m)"
  by (auto simp: keyed_def AList.delete_eq distinct_map_filter)

lemma set_update_subset: "set (AList.update k v m) \<subseteq> insert (k, v) (set m)"
  by (induction m) auto

lemma keyed_update:
  assumes "keyed nameOf m"
  shows "keyed nameOf (AList.update (nameOf f) f m)"
proof -
  have "distinct (map fst (AList.update (nameOf f) f m))"
    using assms by (simp add: keyed_def distinct_update)
  moreover have "nameOf (snd p) = fst p" if "p \<in> set (AList.update (nameOf f) f m)" for p
  proof -
    from that set_update_subset[of "nameOf f" f m]
    have "p = (nameOf f, f) \<or> p \<in> set m" by blast
    with assms show ?thesis by (auto simp: keyed_def)
  qed
  ultimately show ?thesis by (simp add: keyed_def)
qed

lemma keyed_fold:
  "keyed nameOf acc \<Longrightarrow> keyed nameOf (fold (\<lambda>file m. AList.update (nameOf file) file m) files acc)"
  by (induction files arbitrary: acc) (simp_all add: keyed_update)

lemma keyed_buildFileMap: "keyed nameOf (buildFileMap nameOf files)"
  unfolding buildFileMap_def by (rule keyed_fold) (simp add: keyed_def)

lemma keyed_map_of: "keyed nameOf m \<Longrightarrow> map_of m k = Some f \<Longrightarrow> nameOf f = k"
  by (auto simp: keyed_def dest!: map_of_SomeD)

lemma picks_names:
  "keyed nameOf m \<Longrightarrow> set (map nameOf (picks ol m)) \<subseteq> set ol \<inter> fst ` set m"
proof (induction ol arbitrary: m)
  case Nil
  then show ?case by simp
next
  case (Cons t ts)
  show ?case
  proof (cases "map_of m t")
    case None
    with Cons.IH[OF Cons.prems] show ?thesis by auto
  next
    case (Some f)
    from keyed_map_of[OF Cons.prems Some] have n: "nameOf f = t" .
    from Some have "t \<in> fst ` set m" by (rule map_of_SomeD[THEN imageI, of _ _ _ fst, simplified])
    moreover from Cons.IH[OF keyed_delete[OF Cons.prems], of t]
    have "set (map nameOf (picks ts (AList.delete t m))) \<subseteq> set ts \<inter> fst ` set m"
      using dom_delete_subset[of t m] by blast
    ultimately show ?thesis using Some n by auto
  qed
qed

lemma picks_names_distinct:
  "keyed nameOf m \<Longrightarrow> distinct (map nameOf (picks ol m))"
proof (induction ol arbitrary: m)
  case Nil
  then show ?case by simp
next
  case (Cons t ts)
  show ?case
  proof (cases "map_of m t")
    case None
    with Cons.IH[OF Cons.prems] show ?thesis by simp
  next
    case (Some f)
    from keyed_map_of[OF Cons.prems Some] have n: "nameOf f = t" .
    from picks_names[OF keyed_delete[OF Cons.prems], of ts t]
    have "t \<notin> set (map nameOf (picks ts (AList.delete t m)))"
      using delete_notin_dom[of t m] by blast
    with Cons.IH[OF keyed_delete[OF Cons.prems], of t] Some n show ?thesis by simp
  qed
qed

lemma picks_mset:
  "distinct (map fst m) \<Longrightarrow>
   mset (picks ol m) + mset (map snd (filter (\<lambda>p. fst p \<notin> set ol) m)) = mset (map snd m)"
proof (induction ol arbitrary: m)
  case Nil
  then show ?case by simp
next
  case (Cons t ts)
  show ?case
  proof (cases "map_of m t")
    case None
    then have "t \<notin> fst ` set m" by (simp add: map_of_eq_None_iff)
    then have "filter (\<lambda>p. fst p \<notin> set (t # ts)) m = filter (\<lambda>p. fst p \<notin> set ts) m"
      by (intro filter_cong) auto
    with None Cons.IH[OF Cons.prems] show ?thesis by simp
  next
    case (Some f)
    have flt: "filter (\<lambda>p. fst p \<notin> set ts) (AList.delete t m) = filter (\<lambda>p. fst p \<notin> set (t # ts)) m"
      by (auto simp: AList.delete_eq intro: filter_cong)
    have del: "mset (map snd m) = add_mset f (mset (map snd (AList.delete t m)))"
      using Cons.prems Some
    proof (induction m)
      case Nil
      then show ?case by simp
    next
      case (Cons p m)
      show ?case
      proof (cases "fst p = t")
        case True
        with Cons.prems have "snd p = f" by (cases p) simp
        moreover from True Cons.prems have "t \<notin> fst ` set m" by auto
        ultimately show ?thesis using True by (cases p) simp
      next
        case False
        with Cons show ?thesis by (cases p) auto
      qed
    qed
    from Cons.IH[OF distinct_delete[OF Cons.prems], of t] flt del Some
    show ?thesis by simp
  qed
qed

lemma fold_update_fresh:
  "distinct (map nameOf xs) \<Longrightarrow> nameOf ` set xs \<inter> fst ` set acc = {} \<Longrightarrow>
   fold (\<lambda>file m. AList.update (nameOf file) file m) xs acc = acc @ map (\<lambda>f. (nameOf f, f)) xs"
proof (induction xs arbitrary: acc)
  case Nil
  then show ?case by simp
next
  case (Cons x xs)
  from Cons.prems have fresh: "nameOf x \<notin> fst ` set acc" by auto
  have upd: "AList.update (nameOf x) x acc = acc @ [(nameOf x, x)]"
    using fresh by (induction acc) auto
  from Cons.prems have "nameOf ` set xs \<inter> fst ` set (acc @ [(nameOf x, x)]) = {}"
    by auto
  with Cons.IH[of "acc @ [(nameOf x, x)]"] Cons.prems upd show ?case by simp
qed

lemma keyed_rebuild: "keyed nameOf m \<Longrightarrow> map (\<lambda>f. (nameOf f, f)) (map snd m) = m"
  by (induction m) (auto simp: keyed_def)

lemma picks_set:
  "keyed nameOf m \<Longrightarrow> set (picks ol m) = {f. \<exists>k\<in>set ol. map_of m k = Some f}"
proof (induction ol arbitrary: m)
  case Nil
  then show ?case by simp
next
  case (Cons t ts)
  show ?case
  proof (cases "map_of m t")
    case None
    with Cons.IH[OF Cons.prems] show ?thesis by auto
  next
    case (Some f)
    have d: "map_of (AList.delete t m) k = (if k = t then None else map_of m k)" for k
      by (simp add: delete_conv')
    have "set (picks (t # ts) m) = insert f (set (picks ts (AList.delete t m)))"
      using Some by simp
    also have "\<dots> = insert f {g. \<exists>k\<in>set ts. map_of (AList.delete t m) k = Some g}"
      using Cons.IH[OF keyed_delete[OF Cons.prems], of t] by simp
    also have "\<dots> = {g. \<exists>k\<in>set (t # ts). map_of m k = Some g}"
    proof (intro set_eqI iffI)
      fix g assume "g \<in> insert f {g. \<exists>k\<in>set ts. map_of (AList.delete t m) k = Some g}"
      then show "g \<in> {g. \<exists>k\<in>set (t # ts). map_of m k = Some g}"
        using Some by (auto simp: d split: if_splits)
    next
      fix g assume "g \<in> {g. \<exists>k\<in>set (t # ts). map_of m k = Some g}"
      then obtain k where k: "k \<in> set (t # ts)" "map_of m k = Some g" by auto
      show "g \<in> insert f {g. \<exists>k\<in>set ts. map_of (AList.delete t m) k = Some g}"
      proof (cases "k = t")
        case True
        with k Some show ?thesis by simp
      next
        case False
        with k have "k \<in> set ts" "map_of (AList.delete t m) k = Some g" by (auto simp: d)
        then show ?thesis by blast
      qed
    qed
    finally show ?thesis .
  qed
qed

lemma reorder_idem:
  "reorder nameOf ol (reorder nameOf ol files) = reorder nameOf ol files"
proof -
  define m where "m = buildFileMap nameOf files"
  define P where "P = picks ol m"
  define R where "R = filter (\<lambda>p. fst p \<notin> set ol) m"
  have k: "keyed nameOf m" unfolding m_def by (rule keyed_buildFileMap)
  have out: "reorder nameOf ol files = P @ map snd R"
    by (simp add: reorder_picks m_def P_def R_def)
  have kR: "keyed nameOf R" using k by (auto simp: keyed_def R_def distinct_map_filter)
  have namesR: "map (nameOf \<circ> snd) R = map fst R"
    using kR by (induction R) (auto simp: keyed_def)
  have dP: "distinct (map nameOf P)" unfolding P_def by (rule picks_names_distinct[OF k])
  have sP: "set (map nameOf P) \<subseteq> set ol" using picks_names[OF k, of ol] by (auto simp: P_def)
  have sR: "set (map fst R) \<inter> set ol = {}" by (auto simp: R_def)
  have dist: "distinct (map nameOf (P @ map snd R))"
    using dP sP sR kR by (auto simp: namesR keyed_def)
  have m': "buildFileMap nameOf (P @ map snd R) = map (\<lambda>f. (nameOf f, f)) P @ R"
    unfolding buildFileMap_def
    using fold_update_fresh[OF dist, of "[]"] keyed_rebuild[OF kR] by simp
  have fP: "filter (\<lambda>p. fst p \<notin> set ol) (map (\<lambda>f. (nameOf f, f)) P) = []"
    using sP by (auto simp: filter_empty_conv)
  have fR: "filter (\<lambda>p. fst p \<notin> set ol) R = R" by (simp add: R_def)
  have setP: "set (map (\<lambda>f. (nameOf f, f)) P) = {p \<in> set m. fst p \<in> set ol}"
  proof -
    have "set P = {f. \<exists>k\<in>set ol. map_of m k = Some f}"
      unfolding P_def by (rule picks_set[OF k])
    moreover have "map_of m a = Some b \<longleftrightarrow> (a, b) \<in> set m" for a b
      using k by (simp add: keyed_def)
    moreover have "nameOf b = a" if "(a, b) \<in> set m" for a b
      using k that by (force simp: keyed_def)
    ultimately show ?thesis by force
  qed
  have sm: "set (map (\<lambda>f. (nameOf f, f)) P @ R) = set m"
    using setP by (auto simp: R_def)
  have dm': "distinct (map fst (map (\<lambda>f. (nameOf f, f)) P @ R))"
  proof -
    have e1: "map fst (map (\<lambda>f. (nameOf f, f)) P) = map nameOf P" by (induction P) simp_all
    have e2: "map fst R = map nameOf (map snd R)"
      using kR by (induction R) (auto simp: keyed_def)
    have eq: "map fst (map (\<lambda>f. (nameOf f, f)) P @ R) = map nameOf (P @ map snd R)"
      unfolding map_append e1 using e2 by simp
    show ?thesis unfolding eq by (rule dist)
  qed
  have dm: "distinct (map fst m)" using k by (simp add: keyed_def)
  from map_of_inject_set[OF dm' dm] sm
  have mo: "map_of (map (\<lambda>f. (nameOf f, f)) P @ R) = map_of m" by blast
  have "reorder nameOf ol (P @ map snd R) = picks ol m @ map snd R"
    unfolding reorder_picks m' using picks_cong[OF mo, of ol] fP fR by simp
  with out show ?thesis by (simp add: P_def)
qed


lemma reorder_names_distinct: "distinct (map nameOf (reorder nameOf ol files))"
proof -
  define m where "m = buildFileMap nameOf files"
  define R where "R = filter (\<lambda>p. fst p \<notin> set ol) m"
  have k: "keyed nameOf m" unfolding m_def by (rule keyed_buildFileMap)
  have kR: "keyed nameOf R" using k by (auto simp: keyed_def R_def distinct_map_filter)
  have e2: "map nameOf (map snd R) = map fst R"
    using kR by (induction R) (auto simp: keyed_def)
  have "distinct (map nameOf (picks ol m))" by (rule picks_names_distinct[OF k])
  moreover have "distinct (map nameOf (map snd R))" unfolding e2 using kR by (simp add: keyed_def)
  moreover have "set (map nameOf (picks ol m)) \<inter> set (map nameOf (map snd R)) = {}"
    unfolding e2 using picks_names[OF k, of ol] by (auto simp: R_def)
  ultimately have "distinct (map nameOf (picks ol m) @ map nameOf (map snd R))"
    by (simp only: distinct_append)
  then show ?thesis by (simp add: reorder_picks m_def R_def)
qed

lemma reorder_mset:
  "mset (reorder nameOf ol files) = mset (map snd (buildFileMap nameOf files))"
proof -
  have "distinct (map fst (buildFileMap nameOf files))"
    using keyed_buildFileMap[of nameOf files] by (simp add: keyed_def)
  from picks_mset[OF this, of ol] show ?thesis by (simp add: reorder_picks)
qed

lemma map_of_fold_update:
  "map_of (fold (\<lambda>file m. AList.update (nameOf file) file m) files acc) n =
     (case filter (\<lambda>f. nameOf f = n) files of [] \<Rightarrow> map_of acc n | f # fs \<Rightarrow> Some (last (f # fs)))"
proof (induction files arbitrary: acc)
  case Nil
  then show ?case by simp
next
  case (Cons x xs)
  show ?case
    using Cons.IH[of "AList.update (nameOf x) x acc"]
    by (auto simp: update_conv' split: list.splits)
qed

lemma map_of_buildFileMap:
  "map_of (buildFileMap nameOf files) n =
     (if n \<in> nameOf ` set files then Some (last (filter (\<lambda>f. nameOf f = n) files)) else None)"
proof -
  have "filter (\<lambda>f. nameOf f = n) files = [] \<longleftrightarrow> n \<notin> nameOf ` set files"
    by (auto simp: filter_empty_conv)
  then show ?thesis
    unfolding buildFileMap_def map_of_fold_update by (auto split: list.splits)
qed

lemma buildFileMap_keys: "fst ` set (buildFileMap nameOf files) = nameOf ` set files"
proof -
  have "fst ` set (buildFileMap nameOf files) = dom (map_of (buildFileMap nameOf files))"
    by (simp add: dom_map_of_conv_image_fst)
  also have "\<dots> = nameOf ` set files"
    by (auto simp: dom_def map_of_buildFileMap)
  finally show ?thesis .
qed

lemma reorder_set:
  "set (reorder nameOf ol files)
     = {f \<in> set files. f = last (filter (\<lambda>g. nameOf g = nameOf f) files)}"
proof -
  define m where "m = buildFileMap nameOf files"
  have k: "keyed nameOf m" unfolding m_def by (rule keyed_buildFileMap)
  have "set (reorder nameOf ol files) = set (map snd m)"
    using reorder_mset[of nameOf ol files] unfolding m_def by (metis set_mset_mset)
  also have "\<dots> = {f. \<exists>n. map_of m n = Some f}"
    using k by (force simp: keyed_def)
  also have "\<dots> = {f \<in> set files. f = last (filter (\<lambda>g. nameOf g = nameOf f) files)}"
  proof (intro set_eqI iffI)
    fix f assume "f \<in> {f. \<exists>n. map_of m n = Some f}"
    then obtain n where n: "map_of m n = Some f" by auto
    then have mem: "n \<in> nameOf ` set files" and f: "f = last (filter (\<lambda>g. nameOf g = n) files)"
      by (auto simp: m_def map_of_buildFileMap split: if_splits)
    from mem have "filter (\<lambda>g. nameOf g = n) files \<noteq> []" by (auto simp: filter_empty_conv)
    from last_in_set[OF this] f have "f \<in> set files" "nameOf f = n" by auto
    with f show "f \<in> {f \<in> set files. f = last (filter (\<lambda>g. nameOf g = nameOf f) files)}" by simp
  next
    fix f assume "f \<in> {f \<in> set files. f = last (filter (\<lambda>g. nameOf g = nameOf f) files)}"
    then have "f \<in> set files" "f = last (filter (\<lambda>g. nameOf g = nameOf f) files)" by auto
    then have "map_of m (nameOf f) = Some f" by (simp add: m_def map_of_buildFileMap)
    then show "f \<in> {f. \<exists>n. map_of m n = Some f}" by blast
  qed
  finally show ?thesis .
qed

lemma reorder_length: "length (reorder nameOf ol files) = card (nameOf ` set files)"
proof -
  define m where "m = buildFileMap nameOf files"
  have d: "distinct (map fst m)" using keyed_buildFileMap[of nameOf files] by (simp add: keyed_def m_def)
  have "length (reorder nameOf ol files) = size (mset (reorder nameOf ol files))" by simp
  also have "\<dots> = length (map fst m)" unfolding reorder_mset m_def by simp
  also have "\<dots> = card (set (map fst m))" using distinct_card[OF d] by simp
  also have "\<dots> = card (nameOf ` set files)" by (simp add: m_def buildFileMap_keys)
  finally show ?thesis .
qed

lemma reorder_perm_distinct:
  assumes "distinct (map nameOf files)"
  shows "mset (reorder nameOf ol files) = mset files"
proof -
  have "buildFileMap nameOf files = map (\<lambda>f. (nameOf f, f)) files"
    unfolding buildFileMap_def using fold_update_fresh[OF assms, of "[]"] by simp
  then have "map snd (buildFileMap nameOf files) = files" by (simp add: comp_def)
  then show ?thesis by (simp add: reorder_mset)
qed

lemma reorder_shorter:
  assumes "\<not> distinct (map nameOf files)"
  shows "length (reorder nameOf ol files) < length files"
proof -
  have "card (set (map nameOf files)) \<le> length (map nameOf files)" by (rule card_length)
  moreover have "card (set (map nameOf files)) \<noteq> length (map nameOf files)"
    using assms card_distinct by blast
  ultimately show ?thesis by (simp add: reorder_length)
qed

text \<open>
  Claim C10, amended. When a stored order was loaded: if the table names of the input
  files are pairwise distinct the result is a permutation of the input; otherwise the
  result is strictly shorter than the input. In both cases the table names of the result
  are pairwise distinct and the result holds exactly the files that are the last one of
  the input with their table name. When no stored order exists the input is returned
  as it is.
\<close>

theorem orderCubeFiles_stored_order:
  "(distinct (map (cubeTableName e ct) files) \<longrightarrow>
      mset (orderCubeFiles e (Some eo) files ct) = mset files) \<and>
   (\<not> distinct (map (cubeTableName e ct) files) \<longrightarrow>
      length (orderCubeFiles e (Some eo) files ct) < length files) \<and>
   distinct (map (cubeTableName e ct) (orderCubeFiles e (Some eo) files ct)) \<and>
   set (orderCubeFiles e (Some eo) files ct)
     = {f \<in> set files. f = last (filter (\<lambda>g. cubeTableName e ct g = cubeTableName e ct f) files)} \<and>
   orderCubeFiles e None files ct = files"
  by (simp add: orderCubeFiles_def reorder_perm_distinct reorder_shorter
        reorder_names_distinct reorder_set)

theorem orderCubeFiles_stored_order_witness:
  "\<not> distinct (map (cubeTableName (diskEnv dupDisk) Table) dupFiles) \<and>
   length (orderCubeFiles (diskEnv dupDisk) (Some storedOrder) dupFiles Table) < length dupFiles \<and>
   distinct (map (cubeTableName (diskEnv abcDisk) Table) abcFiles) \<and>
   mset (orderCubeFiles (diskEnv abcDisk) (Some storedOrder) abcFiles Table) = mset abcFiles"
proof -
  have dup: "\<not> distinct (map (cubeTableName (diskEnv dupDisk) Table) dupFiles)"
    by code_simp
  have abc: "distinct (map (cubeTableName (diskEnv abcDisk) Table) abcFiles)"
    by code_simp
  from dup abc
    orderCubeFiles_stored_order[of "diskEnv dupDisk" Table dupFiles storedOrder]
    orderCubeFiles_stored_order[of "diskEnv abcDisk" Table abcFiles storedOrder]
  show ?thesis by blast
qed

text \<open>
  Claim C10 as stated fails when no stored order exists: the input is returned as it
  is, so two files with the same table name are both kept.
\<close>

theorem orderCubeFiles_no_order_keeps_duplicates:
  "cubeTableName (diskEnv dupDisk) Table (dupFiles ! 0) = cubeTableName (diskEnv dupDisk) Table (dupFiles ! 1)
   \<and> dupFiles ! 0 \<noteq> dupFiles ! 1
   \<and> orderCubeFiles (diskEnv dupDisk) None dupFiles Table = dupFiles
   \<and> \<not> length (orderCubeFiles (diskEnv dupDisk) None dupFiles Table) < length dupFiles"
  by code_simp

text \<open>
  Claim C4. \<open>orderCubeFiles\<close> is idempotent: with the same stored order (present or
  absent) and the same file contents, ordering its own result returns that result.
\<close>

theorem orderCubeFiles_idempotent:
  "orderCubeFiles e stored (orderCubeFiles e stored files ct) ct = orderCubeFiles e stored files ct"
  by (cases stored) (simp_all add: orderCubeFiles_def reorder_idem)

lemma firstsFrom_cong: "set s = set s' \<Longrightarrow> firstsFrom s xs = firstsFrom s' xs"
proof (induction xs arbitrary: s s')
  case Nil
  then show ?case by simp
next
  case (Cons x xs)
  from Cons.prems have "set (x # s) = set (x # s')" by simp
  from Cons.IH[OF this] Cons.IH[OF Cons.prems] Cons.prems show ?case by simp
qed

lemma picks_firstsFrom:
  assumes "distinct (map fst m)"
  shows "picks ol (filter (\<lambda>p. fst p \<notin> set seen) m)
       = map (\<lambda>t. the (map_of m t)) (filter (\<lambda>t. t \<in> fst ` set m) (firstsFrom seen ol))"
proof (induction ol arbitrary: seen)
  case Nil
  then show ?case by simp
next
  case (Cons t ts)
  let ?m' = "filter (\<lambda>p. fst p \<notin> set seen) m"
  show ?case
  proof (cases "t \<in> set seen")
    case True
    then have "map_of ?m' t = None" by (auto simp: map_of_eq_None_iff)
    with True Cons.IH[of seen] show ?thesis by simp
  next
    case False
    then have look: "map_of ?m' t = map_of m t"
      by (induction m) auto
    have del: "AList.delete t ?m' = filter (\<lambda>p. fst p \<notin> set (t # seen)) m"
      by (auto simp: AList.delete_eq intro: filter_cong)
    show ?thesis
    proof (cases "map_of m t")
      case None
      then have nk: "t \<notin> fst ` set m" by (simp add: map_of_eq_None_iff)
      then have "filter (\<lambda>p. fst p \<notin> set (t # seen)) m = ?m'"
        by (intro filter_cong) auto
      with None look False nk Cons.IH[of "t # seen"] show ?thesis by simp
    next
      case (Some f)
      then have "t \<in> fst ` set m" by (metis map_of_eq_None_iff option.distinct(1))
      with Some look False del Cons.IH[of "t # seen"] show ?thesis by simp
    qed
  qed
qed

lemma update_keys_order:
  "map fst (AList.update k v m) = (if k \<in> fst ` set m then map fst m else map fst m @ [k])"
  by (induction m) auto

lemma buildFileMap_keys_order_aux:
  "map fst (fold (\<lambda>file m. AList.update (nameOf file) file m) files acc)
     = map fst acc @ firstsFrom (map fst acc) (map nameOf files)"
proof (induction files arbitrary: acc)
  case Nil
  then show ?case by simp
next
  case (Cons f fs)
  show ?case
  proof (cases "nameOf f \<in> fst ` set acc")
    case True
    with Cons.IH[of "AList.update (nameOf f) f acc"] show ?thesis
      by (simp add: update_keys_order)
  next
    case False
    have "firstsFrom (map fst acc @ [nameOf f]) (map nameOf fs)
        = firstsFrom (nameOf f # map fst acc) (map nameOf fs)"
      by (rule firstsFrom_cong) auto
    with False Cons.IH[of "AList.update (nameOf f) f acc"] show ?thesis
      by (simp add: update_keys_order)
  qed
qed

lemma buildFileMap_keys_order:
  "map fst (buildFileMap nameOf files) = firstOccurrences (map nameOf files)"
  unfolding buildFileMap_def firstOccurrences_def
  using buildFileMap_keys_order_aux[of nameOf files "[]"] by simp

lemma map_snd_filter_keys:
  "distinct (map fst m) \<Longrightarrow>
   map snd (filter (\<lambda>p. P (fst p)) m) = map (\<lambda>k. the (map_of m k)) (filter P (map fst m))"
proof (induction m)
  case Nil
  then show ?case by simp
next
  case (Cons p m)
  have "map (\<lambda>k. the (map_of (p # m) k)) (filter P (map fst m))
      = map (\<lambda>k. the (map_of m k)) (filter P (map fst m))"
    using Cons.prems by (intro map_cong) (auto simp: image_iff)
  with Cons show ?case by (cases p) auto
qed

lemma reorder_follows:
  "reorder nameOf ol files =
     map (lastFileNamed nameOf files)
       (filter (\<lambda>t. t \<in> nameOf ` set files) (firstOccurrences ol)
        @ filter (\<lambda>n. n \<notin> set ol) (firstOccurrences (map nameOf files)))"
proof -
  define m where "m = buildFileMap nameOf files"
  have d: "distinct (map fst m)" using keyed_buildFileMap[of nameOf files] by (simp add: keyed_def m_def)
  have keys: "fst ` set m = nameOf ` set files" by (simp add: m_def buildFileMap_keys)
  have look: "the (map_of m n) = lastFileNamed nameOf files n" if "n \<in> nameOf ` set files" for n
    using that by (simp add: m_def map_of_buildFileMap lastFileNamed_def)
  have p: "picks ol m = map (\<lambda>t. the (map_of m t)) (filter (\<lambda>t. t \<in> fst ` set m) (firstOccurrences ol))"
    using picks_firstsFrom[OF d, of ol "[]"] by (simp add: firstOccurrences_def)
  have "picks ol m = map (lastFileNamed nameOf files)
          (filter (\<lambda>t. t \<in> nameOf ` set files) (firstOccurrences ol))"
    unfolding p keys by (intro map_cong) (auto simp: look)
  moreover have "map snd (filter (\<lambda>p. fst p \<notin> set ol) m)
      = map (lastFileNamed nameOf files) (filter (\<lambda>n. n \<notin> set ol) (firstOccurrences (map nameOf files)))"
  proof -
    have "map snd (filter (\<lambda>p. fst p \<notin> set ol) m)
        = map (\<lambda>k. the (map_of m k)) (filter (\<lambda>n. n \<notin> set ol) (map fst m))"
      by (rule map_snd_filter_keys[OF d])
    also have "\<dots> = map (lastFileNamed nameOf files) (filter (\<lambda>n. n \<notin> set ol) (map fst m))"
    proof (intro map_cong refl)
      fix k assume "k \<in> set (filter (\<lambda>n. n \<notin> set ol) (map fst m))"
      then have "k \<in> fst ` set m" by auto
      with keys show "the (map_of m k) = lastFileNamed nameOf files k" by (simp add: look)
    qed
    finally show ?thesis by (simp add: m_def buildFileMap_keys_order)
  qed
  ultimately show ?thesis by (simp add: reorder_picks m_def)
qed

text \<open>
  Claim C6. For both categories and every stored order, the result of \<open>orderCubeFiles\<close>
  follows the \<open>tables\<close> sequence of the stored order: first, for every table name of
  \<open>tables\<close> (in the order of \<open>tables\<close>, a repeated name counting once) that is the table
  name of an input file, the last input file with that name; then the files whose table
  names are not in \<open>tables\<close>, in the order in which their names first occur in the input.
  The \<open>seeders\<close> of the stored order have no effect on the result.
\<close>

theorem orderCubeFiles_follows_tables:
  "orderCubeFiles e (Some eo) files ct =
     map (lastFileNamed (cubeTableName e ct) files)
       (filter (\<lambda>t. t \<in> cubeTableName e ct ` set files) (firstOccurrences (tables eo))
        @ filter (\<lambda>n. n \<notin> set (tables eo)) (firstOccurrences (map (cubeTableName e ct) files)))
   \<and> orderCubeFiles e (Some (eo\<lparr>seeders := s\<rparr>)) files ct = orderCubeFiles e (Some eo) files ct"
  by (simp add: orderCubeFiles_def reorder_follows)

theorem orderCubeFiles_follows_tables_witness:
  "orderCubeFiles (diskEnv abcDisk) (Some storedOrder) abcFiles Seeder
     = [''/proj/dbcube/a.table.cube'', ''/proj/dbcube/c.table.cube'', ''/proj/dbcube/b.table.cube'']
   \<and> orderCubeFiles (diskEnv abcDisk) (Some storedOrder) abcFiles Table
     = [''/proj/dbcube/a.table.cube'', ''/proj/dbcube/c.table.cube'', ''/proj/dbcube/b.table.cube'']
   \<and> orderCubeFiles (diskEnv abcDisk) (Some (storedOrder\<lparr>seeders := [''B'', ''A'']\<rparr>)) abcFiles Seeder
     = orderCubeFiles (diskEnv abcDisk) (Some storedOrder) abcFiles Seeder"
proof -
  have r: "map (lastFileNamed (cubeTableName (diskEnv abcDisk) ct) abcFiles)
       (filter (\<lambda>t. t \<in> cubeTableName (diskEnv abcDisk) ct ` set abcFiles) (firstOccurrences (tables storedOrder))
        @ filter (\<lambda>n. n \<notin> set (tables storedOrder)) (firstOccurrences (map (cubeTableName (diskEnv abcDisk) ct) abcFiles)))
     = [''/proj/dbcube/a.table.cube'', ''/proj/dbcube/c.table.cube'', ''/proj/dbcube/b.table.cube'']"
    if "ct = Seeder \<or> ct = Table" for ct
    using that by (elim disjE; hypsubst) code_simp+
  from orderCubeFiles_follows_tables[of "diskEnv abcDisk" storedOrder abcFiles Seeder "[''B'', ''A'']"]
       orderCubeFiles_follows_tables[of "diskEnv abcDisk" storedOrder abcFiles Table "[]"]
       r[of Seeder] r[of Table]
  show ?thesis by simp
qed

section \<open>Properties of the validator\<close>

lemma strIncludes_self: "strIncludes b b"
  by (cases b) (simp_all add: startsWith_def)

lemma strIncludes_append: "strIncludes (a @ b) b"
  by (induction a) (simp_all add: strIncludes_self)

lemma validateAnnotations_msg:
  "er \<in> set (validateAnnotations line n path fileName) \<Longrightarrow> error er \<noteq> lengthMessage"
  by (auto simp: validateAnnotations_def mkError_def lengthMessage_def)

lemma checkOption_msg:
  "er \<in> set (checkOption columnType n path fileName option) \<Longrightarrow> error er \<noteq> lengthMessage"
  by (auto simp: checkOption_def mkError_def lengthMessage_def split: if_splits)

lemma validateColumnOptions_msg:
  "er \<in> set (validateColumnOptions line n path fileName lines) \<Longrightarrow> error er \<noteq> lengthMessage"
proof (cases "optionsMatch line")
  case None
  assume "er \<in> set (validateColumnOptions line n path fileName lines)"
  with None show ?thesis by (simp add: validateColumnOptions_def)
next
  case (Some captured)
  assume er: "er \<in> set (validateColumnOptions line n path fileName lines)"
  show ?thesis
  proof (cases "invalidSyntaxMatch (trim captured)")
    case bad: (Some bad)
    with Some er have "er = mkError fileName (invalidSyntaxMessage bad) path n"
      by (simp add: validateColumnOptions_def)
    then show ?thesis by (simp add: mkError_def invalidSyntaxMessage_def lengthMessage_def)
  next
    case None
    with Some er obtain option where
      "er \<in> set (checkOption (getColumnTypeForOptions lines (n - 1)) n path fileName option)"
      by (auto simp: validateColumnOptions_def Let_def)
    then show ?thesis by (rule checkOption_msg)
  qed
qed

lemma validateColumnProperties_msg:
  "er \<in> set (validateColumnProperties line n path fileName lines) \<Longrightarrow> error er \<noteq> lengthMessage"
  by (auto simp: validateColumnProperties_def mkError_def lengthMessage_def split: option.splits if_splits)

lemma validateRequiredColumnProperties_msg:
  "er \<in> set (validateRequiredColumnProperties lines n path fileName) \<Longrightarrow> error er \<noteq> lengthMessage"
  by (auto simp: validateRequiredColumnProperties_def Let_def mkError_def lengthMessage_def
      split: option.splits if_splits)

lemma validateGeneralSyntax_msg:
  "er \<in> set (validateGeneralSyntax line n path fileName) \<Longrightarrow> error er \<noteq> lengthMessage"
  by (auto simp: validateGeneralSyntax_def mkError_def lengthMessage_def split: if_splits)

lemma validateOverallStructure_msg:
  "er \<in> set (validateOverallStructure lines path fileName) \<Longrightarrow> error er \<noteq> lengthMessage"
  by (auto simp: validateOverallStructure_def mkError_def lengthMessage_def split: if_splits)

lemma filter_none: "(\<And>x. x \<in> set xs \<Longrightarrow> \<not> P x) \<Longrightarrow> filter P xs = []"
  by (simp add: filter_empty_conv)

lemma validateDataTypes_filter:
  "filter (isLengthError k) (validateDataTypes line n path fileName lines)
     = (if strIncludes line varcharDecl \<and> \<not> hasLengthNearby lines n \<and> k = n
        then [mkError fileName lengthMessage path n] else [])"
proof -
  have "filter (isLengthError k)
          (map (\<lambda>t. mkError fileName
            (''Invalid data type '' @ [sq] @ t @ [sq] @ ''. Valid types: '' @ joinComma validTypes) path n)
            (filter (\<lambda>t. t \<notin> set validTypes) (globalMatches typeAt line))) = []"
    by (rule filter_none) (auto simp: isLengthError_def mkError_def lengthMessage_def)
  then show ?thesis
    by (auto simp: validateDataTypes_def isLengthError_def mkError_def)
qed

lemma lineErrors_filter:
  "filter (isLengthError k) (lineErrors lines path fileName j)
     = (if \<not> skipped (lines ! j) \<and> strIncludes (lines ! j) varcharDecl
           \<and> \<not> hasLengthNearby lines (j + 1) \<and> k = j + 1
        then [mkError fileName lengthMessage path (j + 1)] else [])"
proof (cases "skipped (lines ! j)")
  case True
  then show ?thesis by (simp add: lineErrors_def)
next
  case False
  have a: "filter (isLengthError k) (validateAnnotations l n path fileName) = []" for l n
    by (rule filter_none) (auto simp: isLengthError_def dest: validateAnnotations_msg)
  have o: "filter (isLengthError k) (validateColumnOptions l n path fileName lines) = []" for l n
    by (rule filter_none) (auto simp: isLengthError_def dest: validateColumnOptions_msg)
  have p: "filter (isLengthError k) (validateColumnProperties l n path fileName lines) = []" for l n
    by (rule filter_none) (auto simp: isLengthError_def dest: validateColumnProperties_msg)
  have r: "filter (isLengthError k) (validateRequiredColumnProperties lines n path fileName) = []" for n
    by (rule filter_none) (auto simp: isLengthError_def dest: validateRequiredColumnProperties_msg)
  have g: "filter (isLengthError k) (validateGeneralSyntax l n path fileName) = []" for l n
    by (rule filter_none) (auto simp: isLengthError_def dest: validateGeneralSyntax_msg)
  from False show ?thesis
    by (simp add: lineErrors_def Let_def a o p r g validateDataTypes_filter)
qed

lemma concat_map_single:
  assumes "i < n" and "\<And>j. j < n \<Longrightarrow> j \<noteq> i \<Longrightarrow> g j = []"
  shows "concat (map g [0..<n]) = g i"
proof -
  have "[0..<n] = [0..<i] @ [i..<n]"
    using upt_add_eq_append[of 0 i "n - i"] assms(1) by simp
  moreover have "[i..<n] = i # [Suc i..<n]"
    using assms(1) by (simp add: upt_conv_Cons)
  ultimately have split: "[0..<n] = [0..<i] @ [i] @ [Suc i..<n]" by simp
  have z1: "concat (map g [0..<i]) = []" using assms by (auto simp: concat_eq_Nil_conv)
  have z2: "concat (map g [Suc i..<n]) = []" using assms by (auto simp: concat_eq_Nil_conv)
  show ?thesis unfolding split map_append concat_append z1 z2 by simp
qed

lemma hasLengthNearby_window:
  "hasLengthNearby lines (i + 1) \<longleftrightarrow> (\<exists>l \<in> set (take 5 (drop i lines)). strIncludes l ''length:'')"
proof -
  have "take (min (i + 1 + 4) (length lines) - (i + 1 - 1)) (drop i lines) = take 5 (drop i lines)"
    by (cases "i + 5 \<le> length lines") (simp_all add: min_def)
  then show ?thesis by (simp add: hasLengthNearby_def Let_def)
qed

text \<open>
  Claim C7, amended. For line \<open>i + 1\<close> of a readable file, the result of
  \<open>validateCubeFile\<close> has exactly one error with the message
  \<^verbatim>\<open>VARCHAR type requires a length specification\<close> and this line number if the line is
  neither blank nor a comment, contains \<^verbatim>\<open>type: "varchar"\<close>, and none of the five lines from
  this line on contains \<^verbatim>\<open>length:\<close>; otherwise it has no such error.
\<close>

theorem varchar_length_error:
  assumes "readFileSync e path = Inr content"
    and "i < length (splitLines content)"
  shows "length (filter (\<lambda>er. error er = lengthMessage \<and> lineNumber er = Some (i + 1))
                   (errors (validateCubeFile e path)))
         = (if \<not> skipped (splitLines content ! i)
               \<and> strIncludes (splitLines content ! i) varcharDecl
               \<and> \<not> (\<exists>l \<in> set (take 5 (drop i (splitLines content))). strIncludes l ''length:'')
            then 1 else 0)"
proof -
  define lines where "lines = splitLines content"
  define fileName where "fileName = basename e path (extname e path)"
  define g where "g = (\<lambda>j. filter (isLengthError (Suc i)) (lineErrors lines path fileName j))"
  have P: "(\<lambda>er. error er = lengthMessage \<and> lineNumber er = Some (i + 1)) = isLengthError (Suc i)"
    by (simp add: isLengthError_def fun_eq_iff)
  have errs: "errors (validateCubeFile e path)
      = concat (map (lineErrors lines path fileName) [0..<length lines])
        @ validateOverallStructure lines path fileName"
    using assms(1) by (simp add: validateCubeFile_def contentErrors_def Let_def lines_def fileName_def)
  have ov: "filter (isLengthError (Suc i)) (validateOverallStructure lines path fileName) = []"
    by (rule filter_none) (auto simp: isLengthError_def dest: validateOverallStructure_msg)
  have "filter (isLengthError (Suc i)) (concat (map (lineErrors lines path fileName) [0..<length lines]))
      = concat (map g [0..<length lines])"
    by (simp add: filter_concat g_def comp_def)
  also have "\<dots> = g i"
    using assms(2) by (intro concat_map_single) (auto simp: g_def lineErrors_filter lines_def)
  finally have "filter (isLengthError (Suc i)) (errors (validateCubeFile e path)) = g i"
    by (simp add: errs ov)
  moreover have "g i = (if \<not> skipped (lines ! i) \<and> strIncludes (lines ! i) varcharDecl
                          \<and> \<not> hasLengthNearby lines (Suc i)
                        then [mkError fileName lengthMessage path (Suc i)] else [])"
    by (simp add: g_def lineErrors_filter)
  ultimately show ?thesis
    unfolding P using hasLengthNearby_window[of lines i] by (simp add: lines_def)
qed

theorem varchar_length_error_witness:
  "readFileSync (diskEnv [(cubePath, varcharCube)]) cubePath = Inr varcharCube
   \<and> 3 < length (splitLines varcharCube)
   \<and> \<not> skipped (splitLines varcharCube ! 3)
   \<and> strIncludes (splitLines varcharCube ! 3) varcharDecl
   \<and> length (filter (\<lambda>er. error er = lengthMessage \<and> lineNumber er = Some (3 + 1))
              (errors (validateCubeFile (diskEnv [(cubePath, varcharCube)]) cubePath))) = 1"
proof -
  have h1: "readFileSync (diskEnv [(cubePath, varcharCube)]) cubePath = Inr varcharCube" by code_simp
  have h2: "3 < length (splitLines varcharCube)" by code_simp
  have h3: "\<not> skipped (splitLines varcharCube ! 3)" by code_simp
  have h4: "strIncludes (splitLines varcharCube ! 3) varcharDecl" by code_simp
  have w: "\<not> (\<exists>l \<in> set (take 5 (drop 3 (splitLines varcharCube))). strIncludes l ''length:'')"
    by code_simp
  from varchar_length_error[OF h1 h2] w h1 h2 h3 h4 show ?thesis by simp
qed

text \<open>
  Claim C7 as stated fails. In the file below both lines contain \<^verbatim>\<open>type: "varchar"\<close> and
  no line contains \<^verbatim>\<open>length:\<close>. The first line is a comment and is skipped: no error
  mentions \<^verbatim>\<open>length specification\<close> at line 1. The second line is also an options line
  with the entry \<^verbatim>\<open>"length specification"\<close>: two errors at line 2 mention the phrase, the
  error of the missing length and the error of the invalid option that quotes the entry.
\<close>

theorem varchar_claim_counterexample:
  "length (splitLines commentCube) = 2
   \<and> strIncludes (splitLines commentCube ! 0) varcharDecl
   \<and> strIncludes (splitLines commentCube ! 1) varcharDecl
   \<and> \<not> strIncludes (splitLines commentCube ! 0) ''length:''
   \<and> \<not> strIncludes (splitLines commentCube ! 1) ''length:''
   \<and> filter (mentions ''length specification'' 1)
         (errors (validateCubeFile (diskEnv [(cubePath, commentCube)]) cubePath)) = []
   \<and> length (filter (mentions ''length specification'' 2)
         (errors (validateCubeFile (diskEnv [(cubePath, commentCube)]) cubePath))) = 2"
  by code_simp

text \<open>
  Claim C9. When reading the file throws, \<open>validateCubeFile\<close> returns a result (it does
  not throw) that is not valid and whose only error carries the message of the read
  exception and line number 1.
\<close>

theorem validateCubeFile_read_failure:
  assumes "readFileSync e path = Inl msg"
  shows "validateCubeFile e path =
           \<lparr>isValid = False,
            errors = [\<lparr>itemName = basename e path (extname e path),
                       error = ''Failed to read cube file: '' @ msg,
                       filePath = Some path, lineNumber = Some 1\<rparr>]\<rparr>
         \<and> strIncludes (''Failed to read cube file: '' @ msg) msg"
  using assms strIncludes_append[of "''Failed to read cube file: ''" msg]
  by (simp add: validateCubeFile_def)

theorem validateCubeFile_read_failure_witness:
  "readFileSync (diskEnv []) cubePath = Inl (''ENOENT: no such file or directory, open '' @ [sq] @ cubePath @ [sq])
   \<and> isValid (validateCubeFile (diskEnv []) cubePath) = False
   \<and> map (\<lambda>er. (error er, lineNumber er)) (errors (validateCubeFile (diskEnv []) cubePath))
       = [(''Failed to read cube file: ENOENT: no such file or directory, open ''
            @ [sq] @ cubePath @ [sq], Some 1)]"
proof -
  have h: "readFileSync (diskEnv []) cubePath
         = Inl (''ENOENT: no such file or directory, open '' @ [sq] @ cubePath @ [sq])"
    by code_simp
  from validateCubeFile_read_failure[OF h] h show ?thesis by simp
qed

lemma dropWhile_hd: "xs \<noteq> [] \<Longrightarrow> \<not> P (hd xs) \<Longrightarrow> dropWhile P xs = xs"
  by (cases xs) auto

lemma trim_id: "s \<noteq> [] \<Longrightarrow> \<not> isSpace (hd s) \<Longrightarrow> \<not> isSpace (last s) \<Longrightarrow> trim s = s"
  by (simp add: trim_def dropWhile_hd hd_rev)

lemma trim_Nil: "trim [] = []"
  by (simp add: trim_def)

lemma search_SomeD: "search m s = Some r \<Longrightarrow> \<exists>p t. s = p @ t \<and> m t = Some r"
proof (induction s)
  case Nil
  then show ?case by simp
next
  case (Cons c cs)
  show ?case
  proof (cases "m (c # cs)")
    case (Some a)
    with Cons.prems have "m (c # cs) = Some r" by simp
    then show ?thesis by (intro exI[of _ "[]"] exI[of _ "c # cs"]) simp
  next
    case None
    with Cons.prems have "search m cs = Some r" by simp
    from Cons.IH[OF this] obtain p t where "cs = p @ t" "m t = Some r" by blast
    then show ?thesis by (intro exI[of _ "c # p"] exI[of _ t]) simp
  qed
qed

lemma bareRun_no_quote: "bareRun t = Some g \<Longrightarrow> t \<noteq> [] \<and> dq \<notin> set t"
proof (induction t arbitrary: g)
  case Nil
  then show ?case by simp
next
  case (Cons c cs)
  from Cons.prems have bare: "isBare c" by (simp split: if_splits)
  then have "c \<noteq> dq" by (simp add: isBare_def)
  moreover have "dq \<notin> set cs"
  proof (cases "bareRun cs")
    case None
    with Cons.prems bare show ?thesis by (simp add: noQuoteAhead_def split: if_splits)
  next
    case (Some g')
    from Cons.IH[OF this] show ?thesis by simp
  qed
  ultimately show ?case by simp
qed

lemma invalidSyntaxMatch_closed:
  assumes "s = [] \<or> last s = dq"
  shows "invalidSyntaxMatch s = None"
proof (rule ccontr)
  assume "invalidSyntaxMatch s \<noteq> None"
  then obtain g where "search bareRun s = Some g" by (auto simp: invalidSyntaxMatch_def)
  from search_SomeD[OF this] obtain p t where s: "s = p @ t" and "bareRun t = Some g" by blast
  from bareRun_no_quote[OF this(2)] have t: "t \<noteq> []" "dq \<notin> set t" by simp_all
  from s t(1) have "s \<noteq> []" "last s = last t" by simp_all
  moreover from t have "last t \<noteq> dq" using last_in_set by metis
  ultimately show False using assms by simp
qed

lemma greedyDot_stop:
  "(\<And>p t. r = p @ t \<Longrightarrow> p \<noteq> [] \<Longrightarrow> \<not> k t) \<Longrightarrow> greedyDot k r = (if k r then Some [] else None)"
proof (induction r)
  case Nil
  then show ?case by simp
next
  case (Cons c cs)
  have "\<not> k cs" using Cons.prems[of "[c]" cs] by simp
  moreover have "greedyDot k cs = (if k cs then Some [] else None)"
  proof (rule Cons.IH)
    fix p t assume "cs = p @ t" "p \<noteq> []"
    then show "\<not> k t" using Cons.prems[of "c # p" t] by simp
  qed
  ultimately show ?case by simp
qed

lemma greedyDot_take:
  "(\<And>c. c \<in> set g \<Longrightarrow> \<not> isLineTerminator c) \<Longrightarrow> greedyDot k r = Some [] \<Longrightarrow>
   greedyDot k (g @ r) = Some g"
  by (induction g) simp_all

lemma optionsTail_close: "optionsTail '');'' = False" "optionsTail [] = False"
  by (simp_all add: optionsTail_def lit_def startsWith_def)

lemma greedyDot_options:
  assumes "\<And>c. c \<in> set g \<Longrightarrow> \<not> isLineTerminator c"
  shows "greedyDot optionsTail (g @ ''];'') = Some g"
proof -
  have "greedyDot optionsTail ''];'' = (if optionsTail ''];'' then Some [] else None)"
  proof (rule greedyDot_stop)
    fix p t :: string assume "''];'' = p @ t" "p \<noteq> []"
    then have "t = '';'' \<or> t = []"
      by (auto simp: Cons_eq_append_conv)
    then show "\<not> optionsTail t"
      by (auto simp: optionsTail_def lit_def startsWith_def)
  qed
  moreover have "optionsTail ''];''"
    by (simp add: optionsTail_def lit_def startsWith_def)
  ultimately have "greedyDot optionsTail ''];'' = Some []" by simp
  from greedyDot_take[OF assms this] show ?thesis by simp
qed

lemma optionsMatch_line:
  assumes "\<And>c. c \<in> set indent \<Longrightarrow> isSpace c"
    and "\<And>c. c \<in> set g \<Longrightarrow> \<not> isLineTerminator c"
  shows "optionsMatch (indent @ ''options: ['' @ g @ ''];'') = Some g"
proof -
  have "dropWhile isSpace (indent @ ''options: ['' @ g @ ''];'') = ''options: ['' @ g @ ''];''"
    using assms(1) by (simp add: dropWhile_append2 isSpace_def)
  then show ?thesis
    using greedyDot_options[OF assms(2)]
    by (simp add: optionsMatch_def ws_def lit_def startsWith_def isSpace_def)
qed


lemma validOptions_chars:
  "option \<in> set validOptions \<Longrightarrow> c \<in> set option \<Longrightarrow> \<not> isLineTerminator c \<and> c \<noteq> dq"
  by (auto simp: validOptions_def isLineTerminator_def)

lemma joinComma_quoted_chars:
  "(\<And>option c. option \<in> set opts \<Longrightarrow> c \<in> set option \<Longrightarrow> \<not> isLineTerminator c) \<Longrightarrow>
   c \<in> set (joinComma (map quoteOption opts)) \<Longrightarrow> \<not> isLineTerminator c"
proof (induction opts rule: induct_list012)
  case 1
  then show ?case by simp
next
  case (2 x)
  then show ?case by (auto simp: quoteOption_def isLineTerminator_def)
next
  case (3 x y zs)
  from "3.prems"(2) have "c \<in> set (quoteOption x) \<or> c \<in> set '', '' \<or> c \<in> set (joinComma (map quoteOption (y # zs)))"
    by auto
  then show ?case
  proof (elim disjE)
    assume "c \<in> set (quoteOption x)"
    with "3.prems"(1)[of x] show ?thesis by (auto simp: quoteOption_def isLineTerminator_def)
  next
    assume "c \<in> set '', ''"
    then show ?thesis by (auto simp: isLineTerminator_def)
  next
    assume mem: "c \<in> set (joinComma (map quoteOption (y # zs)))"
    have "\<not> isLineTerminator c'" if "option \<in> set (y # zs)" "c' \<in> set option" for option c'
      using "3.prems"(1)[of option c'] that by simp
    from "3.IH"(2)[OF this mem] show ?thesis by simp
  qed
qed

lemma joinComma_quoted_ends:
  "opts \<noteq> [] \<Longrightarrow>
   joinComma (map quoteOption opts) \<noteq> []
   \<and> hd (joinComma (map quoteOption opts)) = dq
   \<and> last (joinComma (map quoteOption opts)) = dq"
  by (induction opts rule: induct_list012) (simp_all add: quoteOption_def)

lemma quotedAt_quoted:
  assumes "dq \<notin> set option"
  shows "quotedAt (quoteOption option @ rest) = Some (option, rest)"
proof -
  have ne: "x \<noteq> dq" if "x \<in> set option" for x using assms that by auto
  have tw: "takeWhile (\<lambda>c. c \<noteq> dq) (option @ dq # rest) = option"
    using takeWhile_append2[of option "\<lambda>c. c \<noteq> dq" "dq # rest"] ne by simp
  have dw: "dropWhile (\<lambda>c. c \<noteq> dq) (option @ dq # rest) = dq # rest"
    using dropWhile_append2[of option "\<lambda>c. c \<noteq> dq" "dq # rest"] ne by simp
  show ?thesis
    by (simp add: quotedAt_def quoteOption_def lit_def startsWith_def many0_def tw dw)
qed

lemma globalMatches_quoted:
  "dq \<notin> set option \<Longrightarrow>
   globalMatches quotedAt (quoteOption option @ rest) = option # globalMatches quotedAt rest"
  by (subst globalMatches.simps) (simp add: quotedAt_quoted, simp add: quoteOption_def)

lemma globalMatches_Nil: "globalMatches quotedAt [] = []"
  by (subst globalMatches.simps) (simp add: quotedAt_def lit_def startsWith_def)

lemma globalMatches_separator:
  "globalMatches quotedAt ('', '' @ rest) = globalMatches quotedAt rest"
proof -
  have "globalMatches quotedAt ('' '' @ rest) = globalMatches quotedAt rest"
    by (subst globalMatches.simps) (simp add: quotedAt_def lit_def startsWith_def)
  moreover have "globalMatches quotedAt ('', '' @ rest) = globalMatches quotedAt ('' '' @ rest)"
    by (subst globalMatches.simps) (simp add: quotedAt_def lit_def startsWith_def)
  ultimately show ?thesis by simp
qed

lemma globalMatches_joinComma:
  "(\<And>option. option \<in> set opts \<Longrightarrow> dq \<notin> set option) \<Longrightarrow>
   globalMatches quotedAt (joinComma (map quoteOption opts)) = opts"
proof (induction opts rule: induct_list012)
  case 1
  then show ?case by (simp add: globalMatches_Nil)
next
  case (2 x)
  then show ?case using globalMatches_quoted[of x "[]"] by (simp add: globalMatches_Nil)
next
  case (3 x y zs)
  have "globalMatches quotedAt (joinComma (map quoteOption (x # y # zs)))
      = x # globalMatches quotedAt ('', '' @ joinComma (map quoteOption (y # zs)))"
    using "3.prems"[of x] globalMatches_quoted[of x] by simp
  also have "\<dots> = x # globalMatches quotedAt (joinComma (map quoteOption (y # zs)))"
    by (simp only: globalMatches_separator)
  also have "\<dots> = x # y # zs" using "3.IH"(2) "3.prems" by simp
  finally show ?case .
qed

lemma checkOption_not_syntax:
  "er \<in> set (checkOption columnType n path fileName option) \<Longrightarrow>
   \<not> startsWith (error er) ''Invalid syntax''"
  by (auto simp: checkOption_def mkError_def startsWith_def split: if_splits)

lemma isBlank_isSpace: "isBlank c \<Longrightarrow> isSpace c \<and> \<not> isLineTerminator c"
  by (auto simp: isBlank_def isSpace_def isLineTerminator_def)

lemma dropWhile_all: "(\<And>c. c \<in> set p \<Longrightarrow> P c) \<Longrightarrow> dropWhile P p = []"
  by (induction p) auto

lemma trim_padded:
  assumes "\<And>c. c \<in> set p1 \<Longrightarrow> isSpace c" and "\<And>c. c \<in> set p2 \<Longrightarrow> isSpace c"
    and "x = [] \<or> (\<not> isSpace (hd x) \<and> \<not> isSpace (last x))"
  shows "trim (p1 @ x @ p2) = x"
proof (cases "x = []")
  case True
  have e: "dropWhile isSpace (p1 @ [] @ p2) = []"
    using assms(1,2) by (intro dropWhile_all) auto
  show ?thesis unfolding trim_def True e by simp
next
  case False
  with assms(3) have hd: "\<not> isSpace (hd x)" and lst: "\<not> isSpace (last x)" by simp_all
  have "dropWhile isSpace (p1 @ x @ p2) = dropWhile isSpace (x @ p2)"
    using assms(1) by (intro dropWhile_append2) simp
  also have "\<dots> = x @ p2" using False hd by (cases x) simp_all
  finally have d1: "dropWhile isSpace (p1 @ x @ p2) = x @ p2" .
  have "dropWhile isSpace (rev p2 @ rev x) = dropWhile isSpace (rev x)"
    using assms(2) by (intro dropWhile_append2) simp
  also have "\<dots> = rev x" using False lst by (intro dropWhile_hd) (simp_all add: hd_rev)
  finally show ?thesis by (simp add: trim_def d1)
qed

text \<open>
  With double quotes the entries are accepted: a line \<^verbatim>\<open>options: [ ... ];\<close>, indented by
  white space, whose entries are double-quoted members of the option whitelist
  separated by \<^verbatim>\<open>", "\<close> (with blanks after the opening and before the closing bracket),
  matches the options form; no unquoted value is found in it, its entries are read back
  as the quoted strings, and no \<^verbatim>\<open>Invalid syntax\<close> error is produced for it.
\<close>

lemma double_quoted_options_accepted:
  assumes "\<forall>c \<in> set indent. isSpace c"
    and "\<forall>c \<in> set (pad1 @ pad2). isBlank c"
    and "set opts \<subseteq> set validOptions"
  shows "optionsMatch (optionsLine indent pad1 opts pad2)
           = Some (pad1 @ joinComma (map quoteOption opts) @ pad2)
       \<and> invalidSyntaxMatch (trim (pad1 @ joinComma (map quoteOption opts) @ pad2)) = None
       \<and> globalMatches quotedAt (trim (pad1 @ joinComma (map quoteOption opts) @ pad2)) = opts
       \<and> (\<forall>er \<in> set (validateColumnOptions (optionsLine indent pad1 opts pad2) n path fileName lines).
             \<not> startsWith (error er) ''Invalid syntax'')"
proof -
  let ?body = "joinComma (map quoteOption opts)"
  let ?group = "pad1 @ ?body @ pad2"
  have chars: "\<not> isLineTerminator c \<and> c \<noteq> dq" if "option \<in> set opts" "c \<in> set option" for option c
    using assms(3) that validOptions_chars by blast
  have pads: "isSpace c \<and> \<not> isLineTerminator c" if "c \<in> set pad1 \<or> c \<in> set pad2" for c
    using assms(2) that isBlank_isSpace by auto
  have noLT: "\<not> isLineTerminator c" if "c \<in> set ?group" for c
    using joinComma_quoted_chars[of opts c] chars pads that by auto
  have m: "optionsMatch (optionsLine indent pad1 opts pad2) = Some ?group"
    using optionsMatch_line[of indent ?group] assms(1) noLT by (simp add: optionsLine_def)
  have ends: "?body = [] \<or> (\<not> isSpace (hd ?body) \<and> \<not> isSpace (last ?body))"
    using joinComma_quoted_ends[of opts] by (cases "opts = []") (simp_all add: isSpace_def)
  have t: "trim ?group = ?body"
    using pads ends by (intro trim_padded) auto
  have "?body = [] \<or> last ?body = dq"
    using joinComma_quoted_ends[of opts] by (cases "opts = []") simp_all
  then have i: "invalidSyntaxMatch ?body = None" by (rule invalidSyntaxMatch_closed)
  have g: "globalMatches quotedAt ?body = opts"
    using chars by (intro globalMatches_joinComma) blast
  have "validateColumnOptions (optionsLine indent pad1 opts pad2) n path fileName lines
      = concat (map (checkOption (getColumnTypeForOptions lines (n - 1)) n path fileName) opts)"
    by (simp add: validateColumnOptions_def m t i g)
  then have "\<forall>er \<in> set (validateColumnOptions (optionsLine indent pad1 opts pad2) n path fileName lines).
             \<not> startsWith (error er) ''Invalid syntax''"
    using checkOption_not_syntax by auto
  with m t i g show ?thesis by simp
qed

lemma double_quoted_options_accepted_example:
  \<open>optionsLine ''    '' '' '' [''primary'', ''autoincrement''] [] = ''    options: [ "primary", "autoincrement"];''
   \<and> globalMatches quotedAt (trim ('' '' @ joinComma (map quoteOption [''primary'', ''autoincrement'']) @ []))
       = [''primary'', ''autoincrement'']
   \<and> filter (\<lambda>er. startsWith (error er) ''Invalid syntax'')
         (validateColumnOptions (optionsLine ''    '' '' '' [''primary'', ''autoincrement''] []) 1 cubePath
            ''users.table'' [optionsLine ''    '' '' '' [''primary'', ''autoincrement''] []]) = []\<close>
proof -
  have h1: "\<forall>c \<in> set ''    ''. isSpace c" by code_simp
  have h2: "\<forall>c \<in> set ('' '' @ []). isBlank c" by code_simp
  have h3: "set [''primary'', ''autoincrement''] \<subseteq> set validOptions" by code_simp
  have l: \<open>optionsLine ''    '' '' '' [''primary'', ''autoincrement''] [] = ''    options: [ "primary", "autoincrement"];''\<close>
    by code_simp
  from double_quoted_options_accepted[OF h1 h2 h3, of 1 cubePath "''users.table''"
      "[optionsLine ''    '' '' '' [''primary'', ''autoincrement''] []]"] l
  show ?thesis by (simp only: filter_empty_conv) blast
qed

text \<open>
  With single quotes every such line is rejected: the check for unquoted values finds
  the text up to the first comma or white space, quote included.
\<close>

lemma joinComma_chars:
  "c \<in> set (joinComma xs) \<Longrightarrow> c \<in> set '', '' \<or> (\<exists>x \<in> set xs. c \<in> set x)"
  by (induction xs rule: induct_list012) auto

lemma joinComma_single_ends:
  "opts \<noteq> [] \<Longrightarrow>
   joinComma (map singleQuoteOption opts) \<noteq> []
   \<and> hd (joinComma (map singleQuoteOption opts)) = sq
   \<and> last (joinComma (map singleQuoteOption opts)) = sq"
  by (induction opts rule: induct_list012) (simp_all add: singleQuoteOption_def)

lemma bareRun_all:
  "dq \<notin> set s \<Longrightarrow> s \<noteq> [] \<Longrightarrow> isBare (hd s) \<Longrightarrow> bareRun s = Some (takeWhile isBare s)"
proof (induction s)
  case Nil
  then show ?case by simp
next
  case (Cons c cs)
  then have c: "isBare c" and nq: "dq \<notin> set cs" by simp_all
  show ?case
  proof (cases "cs \<noteq> [] \<and> isBare (hd cs)")
    case True
    with Cons.IH nq have "bareRun cs = Some (takeWhile isBare cs)" by simp
    with c show ?thesis by simp
  next
    case False
    then have "bareRun cs = None" by (cases cs) auto
    moreover from False have "takeWhile isBare cs = []" by (cases cs) auto
    ultimately show ?thesis using c nq by (simp add: noQuoteAhead_def)
  qed
qed

lemma every_single_quoted_line_rejected:
  assumes "\<forall>c \<in> set indent. isSpace c"
    and "\<forall>c \<in> set (pad1 @ pad2). isBlank c"
    and "opts \<noteq> []"
    and "set opts \<subseteq> set validOptions"
  shows "validateColumnOptions (singleQuotedOptionsLine indent pad1 opts pad2) n path fileName lines
       = [mkError fileName
            (invalidSyntaxMessage (takeWhile isBare (joinComma (map singleQuoteOption opts)))) path n]"
proof -
  let ?body = "joinComma (map singleQuoteOption opts)"
  let ?group = "pad1 @ ?body @ pad2"
  have chars: "\<not> isLineTerminator c \<and> c \<noteq> dq" if "c \<in> set ?body" for c
  proof -
    from joinComma_chars[OF that]
    consider "c \<in> set '', ''" | option where "option \<in> set opts" "c \<in> set (singleQuoteOption option)"
      by auto
    then show ?thesis
    proof cases
      case 1
      then show ?thesis by (auto simp: isLineTerminator_def)
    next
      case 2
      then have "c = sq \<or> c \<in> set option" by (auto simp: singleQuoteOption_def)
      with 2(1) assms(4) validOptions_chars[of option c] show ?thesis
        by (auto simp: isLineTerminator_def)
    qed
  qed
  have pads: "isSpace c \<and> \<not> isLineTerminator c" if "c \<in> set pad1 \<or> c \<in> set pad2" for c
    using assms(2) that isBlank_isSpace by auto
  have noLT: "\<not> isLineTerminator c" if "c \<in> set ?group" for c
    using chars pads that by auto
  have m: "optionsMatch (singleQuotedOptionsLine indent pad1 opts pad2) = Some ?group"
    using optionsMatch_line[of indent ?group] assms(1) noLT by (simp add: singleQuotedOptionsLine_def)
  from joinComma_single_ends[OF assms(3)]
  have ne: "?body \<noteq> []" and h: "hd ?body = sq" and l: "last ?body = sq" by simp_all
  have t: "trim ?group = ?body"
    using pads h l by (intro trim_padded) (auto simp: isSpace_def)
  have "bareRun ?body = Some (takeWhile isBare ?body)"
    using chars ne h by (intro bareRun_all) (auto simp: isBare_def isSpace_def)
  then have i: "invalidSyntaxMatch ?body = Some (takeWhile isBare ?body)"
    using ne by (cases ?body) (simp_all add: invalidSyntaxMatch_def)
  show ?thesis by (simp add: validateColumnOptions_def m t i)
qed

text \<open>
  Claim C5 does not hold of the code. The entry of \<^verbatim>\<open>options: ['primary'];\<close> is a
  single-quoted member of the whitelist, and the line gets the error
  \<^verbatim>\<open>Invalid syntax ''primary'' in options array. All values must be quoted strings\<close>
  (the inner quotes are part of the reported text).
\<close>

theorem single_quoted_option_rejected:
  "optionsMatch singleQuotedLine = Some ([sq] @ ''primary'' @ [sq])
   \<and> ''primary'' \<in> set validOptions
   \<and> map error (validateColumnOptions singleQuotedLine 1 cubePath ''users.table'' [singleQuotedLine])
       = [invalidSyntaxMessage ([sq] @ ''primary'' @ [sq])]
   \<and> startsWith (invalidSyntaxMessage ([sq] @ ''primary'' @ [sq])) ''Invalid syntax''"
  by code_simp

text \<open>
  Claim C8 does not hold of the code. The line \<^verbatim>\<open>options: [primary, "unique"];\<close> matches
  the options form and its first entry is an unquoted bare word, but the check for unquoted
  values only finds a bare word after which no double quote follows: the line gets no
  error at all.
\<close>

theorem bare_word_before_quoted_not_reported:
  \<open>optionsMatch bareFirstLine = Some ''primary, "unique"''
   \<and> validateColumnOptions bareFirstLine 1 cubePath ''users.table'' [bareFirstLine] = []\<close>
  by code_simp

section \<open>Properties of the orchestration pass\<close>

text \<open>The loop reaches a file with the variables that the files before it left, unless
  one of them ended the pass.\<close>

lemma runFiles_append:
  "runFiles step st (before @ rest) =
     (case runFiles step st before of
        Continue st' \<Rightarrow> runFiles step st' rest
      | Exit st' \<Rightarrow> Exit st'
      | Thrown msg st' \<Rightarrow> Thrown msg st')"
  by (induction before arbitrary: st) (simp_all split: flow.splits)




text \<open>The whole simulated pass: both tables fail, the second one because of the
  first, and the engine is never called.\<close>

lemma simulated_refresh_pass:
  "(case tablesPass Refresh (diskEnv simDisk) simWorld None True now simFiles of
      Continue st \<Rightarrow>
        map itemName (passErrors st) = [''a.table'', ''B'']
        \<and> error (passErrors st ! 1) = dependencyMessage Refresh ''B'' [''A'']
        \<and> engineCalls st = [] \<and> errorCount st = 2 \<and> processedTables st = []
        \<and> ''A'' \<in> failedTables st \<and> ''B'' \<in> failedTables st
    | Exit st \<Rightarrow> False
    | Thrown msg st \<Rightarrow> False)"
  by code_simp

end
